theory Spec2Isabelle
  imports Complex_Main "HOL-Library.AList"
begin

section \<open>JavaScript values\<close>

text \<open>
  Payloads are typed \<^verbatim>\<open>any\<close> in the source. They are modelled as plain data: the
  values that \<^verbatim>\<open>JSON.parse\<close> produces and \<^verbatim>\<open>JSON.stringify\<close> reproduces, with
  \<open>None\<close> of \<open>json option\<close> standing for \<^verbatim>\<open>undefined\<close>. Numbers are the
  integers (timestamps and counters); an object is the list of its own properties in
  insertion order, read with \<open>map_of\<close>.
\<close>

datatype json =
    JNull
  | JBool bool
  | JNum int
  | JStr string
  | JArr "json list"
  | JObj "(string \<times> json) list"

datatype jstype = TUndefined | TObject | TBoolean | TNumber | TString

fun typeof :: "json option \<Rightarrow> jstype" where
  "typeof None = TUndefined"
| "typeof (Some JNull) = TObject"
| "typeof (Some (JBool b)) = TBoolean"
| "typeof (Some (JNum n)) = TNumber"
| "typeof (Some (JStr s)) = TString"
| "typeof (Some (JArr xs)) = TObject"
| "typeof (Some (JObj fs)) = TObject"

fun truthy :: "json \<Rightarrow> bool" where
  "truthy JNull = False"
| "truthy (JBool b) = b"
| "truthy (JNum n) = (n \<noteq> 0)"
| "truthy (JStr s) = (s \<noteq> [])"
| "truthy (JArr xs) = True"
| "truthy (JObj fs) = True"

fun isArray :: "json option \<Rightarrow> bool" where
  "isArray (Some (JArr xs)) = True"
| "isArray v = False"

text \<open>
  \<open>getProp v k\<close> is the property read \<^verbatim>\<open>v.k\<close> on a value other than \<^verbatim>\<open>null\<close>, for
  the property names the program reads (none of them is \<^verbatim>\<open>length\<close> or an index):
  only an object has them.
\<close>

fun getProp :: "json \<Rightarrow> string \<Rightarrow> json option" where
  "getProp (JObj fs) k = map_of fs k"
| "getProp v k = None"

definition digit :: "nat \<Rightarrow> char" where
  "digit d = ''0123456789'' ! d"

fun digits :: "nat \<Rightarrow> string" where
  "digits n = (if n < 10 then [digit n] else digits (n div 10) @ [digit (n mod 10)])"

declare digits.simps [simp del]

definition decimal :: "int \<Rightarrow> string" where
  "decimal i = (if i < 0 then CHR ''-'' # digits (nat (- i)) else digits (nat i))"

fun joined :: "string list \<Rightarrow> string" where
  "joined [] = []"
| "joined [s] = s"
| "joined (s # t # ss) = s @ CHR '','' # joined (t # ss)"

text \<open>
  The conversion of a template literal, \<^verbatim>\<open>`${v}`\<close>. A number is written in decimal
  digits, as the source writes an integer below \<^verbatim>\<open>1e21\<close> in size (beyond that it
  switches to the exponent form).
\<close>

fun to_string :: "json \<Rightarrow> string" where
  "to_string JNull = ''null''"
| "to_string (JBool b) = (if b then ''true'' else ''false'')"
| "to_string (JNum n) = decimal n"
| "to_string (JStr s) = s"
| "to_string (JArr xs) = joined (map (\<lambda>x. if x = JNull then [] else to_string x) xs)"
| "to_string (JObj fs) = ''[object Object]''"

definition template :: "json option \<Rightarrow> string" where
  "template v = (case v of None \<Rightarrow> ''undefined'' | Some x \<Rightarrow> to_string x)"

fun indexed :: "nat \<Rightarrow> json list \<Rightarrow> (string \<times> json) list" where
  "indexed i [] = []"
| "indexed i (x # xs) = (digits i, x) # indexed (Suc i) xs"

text \<open>The own enumerable properties that an object spread \<^verbatim>\<open>{...v}\<close> copies.\<close>

fun spread :: "json option \<Rightarrow> (string \<times> json) list" where
  "spread (Some (JObj fs)) = fs"
| "spread (Some (JArr xs)) = indexed 0 xs"
| "spread (Some (JStr s)) = indexed 0 (map (\<lambda>c. JStr [c]) s)"
| "spread v = []"

section \<open>The durable local store\<close>

text \<open>
  \<^verbatim>\<open>localStorage\<close> holds strings. A stored string matters to the program only through
  what \<^verbatim>\<open>JSON.parse\<close> makes of it: the empty string (falsy, never parsed), a text
  that does not parse (\<^verbatim>\<open>SyntaxError\<close>), or the text of a value. \<open>refuses\<close> says
  which writes the store rejects (\<^verbatim>\<open>QuotaExceededError\<close>).
\<close>

datatype blob = Blank | Garbled | Encoded json

record Storage =
  items :: "string \<Rightarrow> blob option"
  refuses :: "string \<Rightarrow> blob \<Rightarrow> bool"

definition getItem :: "Storage \<Rightarrow> string \<Rightarrow> blob option" where
  "getItem st k = items st k"

definition setItem :: "Storage \<Rightarrow> string \<Rightarrow> blob \<Rightarrow> Storage option" where
  "setItem st k v = (if refuses st k v then None else Some (st\<lparr>items := (items st)(k \<mapsto> v)\<rparr>))"

fun present :: "blob option \<Rightarrow> bool" where
  "present None = False"
| "present (Some Blank) = False"
| "present (Some Garbled) = True"
| "present (Some (Encoded v)) = True"

section \<open>Offline manager: data\<close>

record OfflineData =
  locations :: "json list"
  messages :: "json list"
  sosAlerts :: "json list"
  lastSync :: "json option"

record QueuedAction =
  id' :: string
  type' :: string
  data :: "json option"
  timestamp :: int
  retryCount :: int

datatype OfflineKey = Locations | Messages | SosAlerts | LastSync

definition maxRetries :: int where
  "maxRetries = 3"

definition emptyOfflineData :: "int \<Rightarrow> OfflineData" where
  "emptyOfflineData now =
     \<lparr>locations = [], messages = [], sosAlerts = [], lastSync = Some (JNum now)\<rparr>"

definition category :: "OfflineKey \<Rightarrow> OfflineData \<Rightarrow> json list" where
  "category k od =
     (case k of Locations \<Rightarrow> locations od | Messages \<Rightarrow> messages od
      | SosAlerts \<Rightarrow> sosAlerts od | LastSync \<Rightarrow> [])"

definition offlineEntry :: "int \<Rightarrow> json option \<Rightarrow> json" where
  "offlineEntry now d =
     JObj (AList.update ''_timestamp'' (JNum now)
            (AList.update ''_offline'' (JBool True) (spread d)))"

text \<open>
  The body of \<^verbatim>\<open>storeOfflineData\<close> on one category list: \<^verbatim>\<open>push\<close>, then
  \<^verbatim>\<open>splice(0, 50)\<close> when the list has grown beyond 100.
\<close>

definition pushCapped :: "json \<Rightarrow> json list \<Rightarrow> json list" where
  "pushCapped e xs = (let ys = xs @ [e] in if length ys > 100 then drop 50 ys else ys)"

definition storeCategory :: "OfflineKey \<Rightarrow> json option \<Rightarrow> int \<Rightarrow> OfflineData \<Rightarrow> OfflineData" where
  "storeCategory k d now od =
     (case k of
        LastSync \<Rightarrow> od\<lparr>lastSync := d\<rparr>
      | Locations \<Rightarrow> od\<lparr>locations := pushCapped (offlineEntry now d) (locations od)\<rparr>
      | Messages \<Rightarrow> od\<lparr>messages := pushCapped (offlineEntry now d) (messages od)\<rparr>
      | SosAlerts \<Rightarrow> od\<lparr>sosAlerts := pushCapped (offlineEntry now d) (sosAlerts od)\<rparr>)"

section \<open>The remote store client\<close>

text \<open>
  The hosted database is an external collaborator. A remote is an oracle that says, for
  each request, whether it goes through: loading the client modules (the dynamic
  \<^verbatim>\<open>import\<close>s), a \<^verbatim>\<open>set\<close> and a \<^verbatim>\<open>push\<close> of a value at a path.
\<close>

datatype rop = LoadClient | Set string "json option" | Push string "json option"

type_synonym remote = "rop \<Rightarrow> bool"

datatype settled = Resolved bool | Rejected

text \<open>
  \<^verbatim>\<open>action.data.childCode\<close> throws a \<^verbatim>\<open>TypeError\<close> when \<^verbatim>\<open>data\<close> is
  \<^verbatim>\<open>undefined\<close> or \<^verbatim>\<open>null\<close>: \<open>readable\<close> is \<open>None\<close> then.
\<close>

definition readable :: "json option \<Rightarrow> json option" where
  "readable d = (case d of None \<Rightarrow> None | Some v \<Rightarrow> if v = JNull then None else Some v)"

text \<open>
  \<^verbatim>\<open>syncAction\<close>: the result of the dispatch and the writes the remote accepted, in
  order. Every failure inside is caught and turned into \<^verbatim>\<open>false\<close>.
\<close>

definition syncAction :: "remote \<Rightarrow> QueuedAction \<Rightarrow> bool \<times> rop list" where
  "syncAction remote a =
     (if \<not> remote LoadClient then (False, [])
      else if type' a = ''location'' then
        (case readable (data a) of
           None \<Rightarrow> (False, [])
         | Some d \<Rightarrow>
             (let w1 = Set (''children/'' @ template (getProp d ''childCode'')) (Some d);
                  w2 = Push (''children/'' @ template (getProp d ''childCode'') @ ''/locationHistory'')
                         (getProp d ''lastLocation'')
              in if \<not> remote w1 then (False, [])
                 else if \<not> remote w2 then (False, [w1])
                 else (True, [w1, w2])))
      else if type' a = ''message'' then
        (case readable (data a) of
           None \<Rightarrow> (False, [])
         | Some d \<Rightarrow>
             (let w = Push (''chats/'' @ template (getProp d ''childCode'') @ ''/messages'')
                        (getProp d ''message'')
              in if remote w then (True, [w]) else (False, [])))
      else if type' a = ''sos'' then
        (let w = Push ''sosAlerts'' (data a)
         in if remote w then (True, [w]) else (False, []))
      else if type' a = ''status'' then
        (case readable (data a) of
           None \<Rightarrow> (False, [])
         | Some d \<Rightarrow>
             (let w = Set (''children/'' @ template (getProp d ''childCode'') @ ''/status'')
                        (getProp d ''status'')
              in if remote w then (True, [w]) else (False, [])))
      else (False, []))"

section \<open>Offline manager: state\<close>

text \<open>
  The queue holds objects, and the drain increments \<^verbatim>\<open>retryCount\<close> on the objects of
  its snapshot, which are the objects of the queue: the queue is a list of references
  into a heap of actions. A \<open>Drain\<close> is one suspended call of \<^verbatim>\<open>syncWhenOnline\<close>,
  waiting at \<^verbatim>\<open>await this.syncAction(action)\<close> for the action \<open>current\<close>, with the
  rest of its snapshot still to visit.
\<close>

record Drain =
  drainId :: nat
  current :: nat
  pending :: "nat list"
  successfulSyncs :: "string list"

record OfflineManager =
  isOnline :: bool
  syncQueue :: "nat list"
  offlineData :: OfflineData
  syncInProgress :: bool
  syncCallbacks :: nat

text \<open>
  The fields of the class, and around them what the program runs in: the heap, the
  durable store, the suspended drains, and the record of what was dispatched (by which
  drain), written to the remote, and told to the connection callbacks.
\<close>

record Runtime = OfflineManager +
  heap :: "nat \<Rightarrow> QueuedAction"
  nextRef :: nat
  localStorage :: Storage
  tasks :: "Drain list"
  drainCount :: nat
  dispatchLog :: "(nat \<times> nat) list"
  remoteLog :: "rop list"
  notified :: "bool list"

record SyncStatus =
  statusIsOnline :: bool
  queuedActions :: nat
  statusLastSync :: "json option"
  statusSyncInProgress :: bool

section \<open>Offline manager: persistence\<close>

definition offlineJson :: "OfflineData \<Rightarrow> json" where
  "offlineJson od =
     JObj ([(''locations'', JArr (locations od)), (''messages'', JArr (messages od)),
            (''sosAlerts'', JArr (sosAlerts od))]
           @ (case lastSync od of None \<Rightarrow> [] | Some v \<Rightarrow> [(''lastSync'', v)]))"

definition actionJson :: "QueuedAction \<Rightarrow> json" where
  "actionJson a =
     JObj ([(''id'', JStr (id' a)), (''type'', JStr (type' a))]
           @ (case data a of None \<Rightarrow> [] | Some v \<Rightarrow> [(''data'', v)])
           @ [(''timestamp'', JNum (timestamp a)), (''retryCount'', JNum (retryCount a))])"

definition queueJson :: "Runtime \<Rightarrow> json" where
  "queueJson rt = JArr (map (\<lambda>r. actionJson (heap rt r)) (syncQueue rt))"

text \<open>\<^verbatim>\<open>saveOfflineData\<close>: two writes in one \<^verbatim>\<open>try\<close>; a refused write ends it.\<close>

definition saveOfflineData :: "Runtime \<Rightarrow> Runtime" where
  "saveOfflineData rt =
     (case setItem (localStorage rt) ''safestep_offline_data'' (Encoded (offlineJson (offlineData rt))) of
        None \<Rightarrow> rt
      | Some s1 \<Rightarrow>
          (case setItem s1 ''safestep_sync_queue'' (Encoded (queueJson rt)) of
             None \<Rightarrow> rt\<lparr>localStorage := s1\<rparr>
           | Some s2 \<Rightarrow> rt\<lparr>localStorage := s2\<rparr>))"

definition resetOfflineData :: "int \<Rightarrow> Runtime \<Rightarrow> Runtime" where
  "resetOfflineData now rt =
     saveOfflineData (rt\<lparr>offlineData := emptyOfflineData now, syncQueue := []\<rparr>)"

definition clearOfflineData :: "int \<Rightarrow> Runtime \<Rightarrow> Runtime" where
  "clearOfflineData now rt =
     saveOfflineData (rt\<lparr>offlineData := emptyOfflineData now, syncQueue := []\<rparr>)"

definition validOfflineData :: "json \<Rightarrow> bool" where
  "validOfflineData p \<longleftrightarrow>
     truthy p \<and> typeof (Some p) = TObject \<and>
     isArray (getProp p ''locations'') \<and>
     isArray (getProp p ''messages'') \<and>
     isArray (getProp p ''sosAlerts'') \<and>
     typeof (getProp p ''lastSync'') = TNumber"

definition validQueueItem :: "json \<Rightarrow> bool" where
  "validQueueItem item \<longleftrightarrow>
     truthy item \<and>
     typeof (getProp item ''id'') = TString \<and>
     typeof (getProp item ''type'') = TString \<and>
     typeof (getProp item ''timestamp'') = TNumber \<and>
     typeof (getProp item ''retryCount'') = TNumber"

fun elements :: "json option \<Rightarrow> json list" where
  "elements (Some (JArr xs)) = xs"
| "elements v = []"

text \<open>
  The in-memory view of a parsed cache object that passed the validation: the four
  properties the program reads and writes. (The source keeps the parsed object itself;
  a property under another name is never read, and is not kept here.)
\<close>

definition parsedOfflineData :: "json \<Rightarrow> OfflineData" where
  "parsedOfflineData p =
     \<lparr>locations = elements (getProp p ''locations''),
      messages = elements (getProp p ''messages''),
      sosAlerts = elements (getProp p ''sosAlerts''),
      lastSync = getProp p ''lastSync''\<rparr>"

text \<open>
  The queue in memory holds the parsed objects that the filter keeps. An entry of the
  queue is a \<open>QueuedAction\<close>, the five properties the program reads of it, each with
  its type: \<open>queuedItem\<close> reads them off a parsed value, and has no answer for a value
  that is not an object or that lacks one of them at its type. It converts nothing. A
  property under another name is not kept: no operation of the program reads one.
\<close>

fun queuedItem :: "json \<Rightarrow> QueuedAction option" where
  "queuedItem (JObj fs) =
     (case map_of fs ''id'' of
        Some (JStr i) \<Rightarrow>
          (case map_of fs ''type'' of
             Some (JStr t) \<Rightarrow>
               (case map_of fs ''timestamp'' of
                  Some (JNum ts) \<Rightarrow>
                    (case map_of fs ''retryCount'' of
                       Some (JNum rc) \<Rightarrow>
                         Some \<lparr>id' = i, type' = t, data = map_of fs ''data'',
                               timestamp = ts, retryCount = rc\<rparr>
                     | _ \<Rightarrow> None)
                | _ \<Rightarrow> None)
           | _ \<Rightarrow> None)
      | _ \<Rightarrow> None)"
| "queuedItem v = None"

text \<open>A new object appended to the queue (\<^verbatim>\<open>push\<close>).\<close>

definition alloc :: "QueuedAction \<Rightarrow> Runtime \<Rightarrow> Runtime" where
  "alloc a rt =
     rt\<lparr>heap := (heap rt)(nextRef rt := a),
        nextRef := Suc (nextRef rt),
        syncQueue := syncQueue rt @ [nextRef rt]\<rparr>"

text \<open>
  \<^verbatim>\<open>loadOfflineData\<close>, in two parts; \<open>None\<close> is the \<^verbatim>\<open>SyntaxError\<close> of
  \<^verbatim>\<open>JSON.parse\<close>, which the \<^verbatim>\<open>catch\<close> around both parts answers with
  \<^verbatim>\<open>resetOfflineData\<close>. Both strings are read before either is parsed. The queue is
  the stored array filtered by \<open>validQueueItem\<close>, object by object; every object the
  filter keeps has its view as a \<open>QueuedAction\<close>, so none is lost to \<open>map_filter\<close>.
\<close>

definition loadCache :: "int \<Rightarrow> blob option \<Rightarrow> Runtime \<Rightarrow> Runtime option" where
  "loadCache now b rt =
     (if \<not> present b then Some rt
      else (case b of
              Some (Encoded p) \<Rightarrow>
                if validOfflineData p then Some (rt\<lparr>offlineData := parsedOfflineData p\<rparr>)
                else Some (resetOfflineData now rt)
            | _ \<Rightarrow> None))"

definition loadQueue :: "blob option \<Rightarrow> Runtime \<Rightarrow> Runtime option" where
  "loadQueue b rt =
     (if \<not> present b then Some rt
      else (case b of
              Some (Encoded q) \<Rightarrow>
                if isArray (Some q)
                then Some (fold alloc
                             (List.map_filter queuedItem (filter validQueueItem (elements (Some q))))
                             (rt\<lparr>syncQueue := []\<rparr>))
                else Some (rt\<lparr>syncQueue := []\<rparr>)
            | _ \<Rightarrow> None))"

definition loadOfflineData :: "int \<Rightarrow> Runtime \<Rightarrow> Runtime" where
  "loadOfflineData now rt =
     (let offlineBlob = getItem (localStorage rt) ''safestep_offline_data'';
          queueBlob = getItem (localStorage rt) ''safestep_sync_queue''
      in case loadCache now offlineBlob rt of
           None \<Rightarrow> resetOfflineData now rt
         | Some rt1 \<Rightarrow>
             (case loadQueue queueBlob rt1 of
                None \<Rightarrow> resetOfflineData now rt1
              | Some rt2 \<Rightarrow> rt2))"

section \<open>Offline manager: the sync engine\<close>

text \<open>
  \<^verbatim>\<open>syncWhenOnline\<close> up to its first \<^verbatim>\<open>await\<close>: the guard, the flag, the snapshot
  \<^verbatim>\<open>[...this.syncQueue]\<close>, and the dispatch of the first action begun. The call
  returns to its caller there; the rest runs when the dispatch settles.
\<close>

definition syncWhenOnline :: "Runtime \<Rightarrow> Runtime" where
  "syncWhenOnline rt =
     (if \<not> isOnline rt \<or> syncInProgress rt then rt
      else (case syncQueue rt of
              [] \<Rightarrow> rt
            | r # rs \<Rightarrow>
                rt\<lparr>syncInProgress := True,
                   tasks := tasks rt @ [\<lparr>drainId = drainCount rt, current = r, pending = rs,
                                         successfulSyncs = []\<rparr>],
                   drainCount := Suc (drainCount rt)\<rparr>))"

text \<open>
  The body of the loop once the dispatch of the object \<open>r\<close> has settled: a success marks
  the action; a failure (\<^verbatim>\<open>false\<close>, or the \<^verbatim>\<open>catch\<close> branch) increments
  \<^verbatim>\<open>retryCount\<close> on the object and marks it when the budget is used up.
\<close>

definition failedAttempt ::
  "nat \<Rightarrow> (nat \<Rightarrow> QueuedAction) \<times> string list \<Rightarrow> (nat \<Rightarrow> QueuedAction) \<times> string list" where
  "failedAttempt r hs =
     (let a = (fst hs r)\<lparr>retryCount := retryCount (fst hs r) + 1\<rparr>
      in ((fst hs)(r := a),
          if retryCount a \<ge> maxRetries then snd hs @ [id' a] else snd hs))"

fun settle ::
  "settled \<Rightarrow> nat \<Rightarrow> (nat \<Rightarrow> QueuedAction) \<times> string list \<Rightarrow> (nat \<Rightarrow> QueuedAction) \<times> string list" where
  "settle (Resolved True) r hs = (fst hs, snd hs @ [id' (fst hs r)])"
| "settle (Resolved False) r hs = failedAttempt r hs"
| "settle Rejected r hs = failedAttempt r hs"

text \<open>After the loop: the batch removal by id, the timestamp, the save, the flag.\<close>

definition completeSync :: "int \<Rightarrow> string list \<Rightarrow> Runtime \<Rightarrow> Runtime" where
  "completeSync now marked rt =
     (saveOfflineData
        (rt\<lparr>syncQueue := filter (\<lambda>r. id' (heap rt r) \<notin> set marked) (syncQueue rt),
            offlineData := (offlineData rt)\<lparr>lastSync := Some (JNum now)\<rparr>\<rparr>))
     \<lparr>syncInProgress := False\<rparr>"

text \<open>
  The suspended drain number \<open>i\<close> resumes: its dispatch settles against the remote as it
  is then, the loop body runs, and the loop either begins the next dispatch or ends.
\<close>

definition resume :: "remote \<Rightarrow> int \<Rightarrow> nat \<Rightarrow> Runtime \<Rightarrow> Runtime" where
  "resume remote now i rt =
     (if i < length (tasks rt) then
        (let t = tasks rt ! i;
             res = syncAction remote (heap rt (current t));
             hs = settle (Resolved (fst res)) (current t) (heap rt, successfulSyncs t);
             rt1 = rt\<lparr>heap := fst hs,
                      dispatchLog := dispatchLog rt @ [(drainId t, current t)],
                      remoteLog := remoteLog rt @ snd res\<rparr>
         in case pending t of
              r # rs \<Rightarrow>
                rt1\<lparr>tasks := (tasks rt)[i := t\<lparr>current := r, pending := rs,
                                               successfulSyncs := snd hs\<rparr>]\<rparr>
            | [] \<Rightarrow>
                completeSync now (snd hs)
                  (rt1\<lparr>tasks := take i (tasks rt) @ drop (Suc i) (tasks rt)\<rparr>))
      else rt)"

section \<open>Offline manager: public operations and event listeners\<close>

text \<open>
  The connection callbacks are the application's (they set a flag and show a toast): the
  manager keeps their number, and \<open>notified\<close> records what each was told. They are
  taken to return.
\<close>

definition notifyCallbacks :: "bool \<Rightarrow> Runtime \<Rightarrow> Runtime" where
  "notifyCallbacks b rt = rt\<lparr>notified := notified rt @ replicate (syncCallbacks rt) b\<rparr>"

definition onConnectionChange :: "Runtime \<Rightarrow> Runtime" where
  "onConnectionChange rt = rt\<lparr>syncCallbacks := Suc (syncCallbacks rt)\<rparr>"

definition isConnected :: "Runtime \<Rightarrow> bool" where
  "isConnected rt = isOnline rt"

text \<open>
  \<^verbatim>\<open>queueAction\<close>, with the clock and the random suffix it reads as arguments (the
  clock reads of one synchronous call are taken at one instant).
\<close>

definition newAction :: "string \<Rightarrow> json option \<Rightarrow> int \<Rightarrow> string \<Rightarrow> QueuedAction" where
  "newAction ty d now rnd =
     \<lparr>id' = ty @ ''_'' @ decimal now @ ''_'' @ rnd, type' = ty, data = d,
      timestamp = now, retryCount = 0\<rparr>"

definition queueAction :: "string \<Rightarrow> json option \<Rightarrow> int \<Rightarrow> string \<Rightarrow> Runtime \<Rightarrow> string \<times> Runtime" where
  "queueAction ty d now rnd rt =
     (let action = newAction ty d now rnd;
          rt1 = saveOfflineData (alloc action rt);
          rt2 = (if isOnline rt1 then syncWhenOnline rt1 else rt1)
      in (id' action, rt2))"

definition storeOfflineData :: "OfflineKey \<Rightarrow> json option \<Rightarrow> int \<Rightarrow> Runtime \<Rightarrow> Runtime" where
  "storeOfflineData k d now rt =
     saveOfflineData (rt\<lparr>offlineData := storeCategory k d now (offlineData rt)\<rparr>)"

definition getSyncStatus :: "Runtime \<Rightarrow> SyncStatus" where
  "getSyncStatus rt =
     \<lparr>statusIsOnline = isOnline rt,
      queuedActions = length (syncQueue rt),
      statusLastSync = lastSync (offlineData rt),
      statusSyncInProgress = syncInProgress rt\<rparr>"

text \<open>The listeners of \<^verbatim>\<open>setupEventListeners\<close> and the timer of \<^verbatim>\<open>startPeriodicSync\<close>.\<close>

definition onOnline :: "Runtime \<Rightarrow> Runtime" where
  "onOnline rt = syncWhenOnline (notifyCallbacks True (rt\<lparr>isOnline := True\<rparr>))"

definition onOffline :: "Runtime \<Rightarrow> Runtime" where
  "onOffline rt = notifyCallbacks False (rt\<lparr>isOnline := False\<rparr>)"

definition onVisibilityChange :: "bool \<Rightarrow> Runtime \<Rightarrow> Runtime" where
  "onVisibilityChange hidden rt = (if \<not> hidden \<and> isOnline rt then syncWhenOnline rt else rt)"

definition onPeriodicSync :: "Runtime \<Rightarrow> Runtime" where
  "onPeriodicSync rt = (if isOnline rt \<and> syncQueue rt \<noteq> [] then syncWhenOnline rt else rt)"

definition blankAction :: QueuedAction where
  "blankAction = \<lparr>id' = [], type' = [], data = None, timestamp = 0, retryCount = 0\<rparr>"

text \<open>
  The constructor, on a fresh process: the field initialisers, then
  \<^verbatim>\<open>loadOfflineData\<close>. \<open>online\<close> is \<^verbatim>\<open>navigator.onLine\<close>.
\<close>

definition construct :: "bool \<Rightarrow> int \<Rightarrow> Storage \<Rightarrow> Runtime" where
  "construct online now st =
     loadOfflineData now
       \<lparr>isOnline = online, syncQueue = [], offlineData = emptyOfflineData now,
        syncInProgress = False, syncCallbacks = 0,
        heap = (\<lambda>r. blankAction), nextRef = 0, localStorage = st, tasks = [],
        drainCount = 0, dispatchLog = [], remoteLog = [], notified = []\<rparr>"

text \<open>
  Everything the event loop can deliver to the manager, one task at a time: a platform
  event, a call from the application, or the settling of a suspended drain's dispatch.
\<close>

datatype event =
    Online
  | Offline
  | VisibilityChange bool
  | PeriodicSync
  | Subscribe
  | QueueAction string "json option" int string
  | StoreOfflineData OfflineKey "json option" int
  | ClearOfflineData int
  | SyncWhenOnline
  | Settles nat remote int

fun deliver :: "event \<Rightarrow> Runtime \<Rightarrow> Runtime" where
  "deliver Online rt = onOnline rt"
| "deliver Offline rt = onOffline rt"
| "deliver (VisibilityChange hidden) rt = onVisibilityChange hidden rt"
| "deliver PeriodicSync rt = onPeriodicSync rt"
| "deliver Subscribe rt = onConnectionChange rt"
| "deliver (QueueAction ty d now rnd) rt = snd (queueAction ty d now rnd rt)"
| "deliver (StoreOfflineData k d now) rt = storeOfflineData k d now rt"
| "deliver (ClearOfflineData now) rt = clearOfflineData now rt"
| "deliver SyncWhenOnline rt = syncWhenOnline rt"
| "deliver (Settles i remote now) rt = resume remote now i rt"

definition run :: "event list \<Rightarrow> Runtime \<Rightarrow> Runtime" where
  "run es rt = fold deliver es rt"

text \<open>
  A drain run to its end with nothing in between: the call, then one settling for each
  action of the queue.
\<close>

definition drain :: "remote \<Rightarrow> int \<Rightarrow> Runtime \<Rightarrow> Runtime" where
  "drain remote now rt =
     run (SyncWhenOnline # replicate (length (syncQueue rt)) (Settles 0 remote now)) rt"

section \<open>Gesture manager: shake counting\<close>

text \<open>
  The shake detector of \<^verbatim>\<open>GestureManager\<close>. A motion event carries an acceleration
  whose components may be \<^verbatim>\<open>null\<close>; the clock is in milliseconds. The field
  \<open>shakeResetTimeout\<close> is the deadline of the pending reset timer, if one is pending:
  the handler cancels the timer it holds before it sets another, so at most one is.
  \<open>shaken\<close> records the calls of the \<^verbatim>\<open>onShake\<close> handler, \<open>notices\<close> the
  notifications shown. Accelerations are real numbers, so the source's guards against
  \<^verbatim>\<open>NaN\<close> and infinite sums never apply, and sums and differences are exact where
  the source rounds to the nearest double: a sample whose change lies within a rounding
  error of the threshold may compare differently there.
\<close>

record Acceleration =
  accX :: real
  accY :: real
  accZ :: real

record Reading =
  readX :: "real option"
  readY :: "real option"
  readZ :: "real option"

datatype notice = ShakeProgress nat | PanicActivated | SosActivated

record GestureManager =
  isEnabled :: bool
  hasOnShake :: bool
  lastAcceleration :: Acceleration
  shakeCount :: nat
  shakeResetTimeout :: "int option"
  lastShakeTime :: int
  shaken :: "nat list"
  notices :: "notice list"

definition shakeThreshold :: real where
  "shakeThreshold = 15"

definition shakeWindow :: int where
  "shakeWindow = 3000"

definition resetShakeCount :: "GestureManager \<Rightarrow> GestureManager" where
  "resetShakeCount g = g\<lparr>shakeCount := 0, shakeResetTimeout := None\<rparr>"

definition component :: "real option \<Rightarrow> real" where
  "component v = (case v of Some r \<Rightarrow> r | None \<Rightarrow> 0)"

definition totalDelta :: "Acceleration \<Rightarrow> Acceleration \<Rightarrow> real" where
  "totalDelta a b = \<bar>accX a - accX b\<bar> + \<bar>accY a - accY b\<bar> + \<bar>accZ a - accZ b\<bar>"

definition callOnShake :: "GestureManager \<Rightarrow> GestureManager" where
  "callOnShake g = (if hasOnShake g then g\<lparr>shaken := shaken g @ [shakeCount g]\<rparr> else g)"

definition showGestureNotification :: "notice \<Rightarrow> GestureManager \<Rightarrow> GestureManager" where
  "showGestureNotification n g = g\<lparr>notices := notices g @ [n]\<rparr>"

text \<open>The counted shake: everything inside \<^verbatim>\<open>if (currentTime - this.lastShakeTime > 500)\<close>.
  \<open>Inl\<close> is the early \<^verbatim>\<open>return\<close> of the SOS branch.\<close>

definition countShake :: "int \<Rightarrow> GestureManager \<Rightarrow> GestureManager + GestureManager" where
  "countShake currentTime g =
     (let g1 = g\<lparr>shakeCount := shakeCount g + 1, lastShakeTime := currentTime,
                 shakeResetTimeout := None\<rparr>
      in if shakeCount g1 = 1 \<or> shakeCount g1 = 2 then
           Inr ((showGestureNotification (ShakeProgress (shakeCount g1)) g1)
                  \<lparr>shakeResetTimeout := Some (currentTime + shakeWindow)\<rparr>)
         else if shakeCount g1 = 3 then
           Inr ((callOnShake (showGestureNotification PanicActivated g1))
                  \<lparr>shakeResetTimeout := Some (currentTime + shakeWindow)\<rparr>)
         else if shakeCount g1 \<ge> 4 then
           Inl (resetShakeCount (callOnShake (showGestureNotification SosActivated g1)))
         else
           Inr (g1\<lparr>shakeResetTimeout := Some (currentTime + shakeWindow)\<rparr>))"

definition handleDeviceMotion :: "Reading option \<Rightarrow> int \<Rightarrow> GestureManager \<Rightarrow> GestureManager" where
  "handleDeviceMotion e currentTime g =
     (case e of
        None \<Rightarrow> g
      | Some acceleration \<Rightarrow>
          if \<not> isEnabled g then g
          else
            (let sample = \<lparr>accX = component (readX acceleration),
                           accY = component (readY acceleration),
                           accZ = component (readZ acceleration)\<rparr>
             in if accX sample = 0 \<and> accY sample = 0 \<and> accZ sample = 0 then g
                else if totalDelta sample (lastAcceleration g) > shakeThreshold
                        \<and> currentTime - lastShakeTime g > 500 then
                  (case countShake currentTime g of
                     Inl g' \<Rightarrow> g'
                   | Inr g' \<Rightarrow> g'\<lparr>lastAcceleration := sample\<rparr>)
                else g\<lparr>lastAcceleration := sample\<rparr>))"

text \<open>
  The reset timer runs \<^verbatim>\<open>resetShakeCount\<close> once its deadline has come; the event loop
  runs a due timer before it delivers a later motion event.
\<close>

definition elapse :: "int \<Rightarrow> GestureManager \<Rightarrow> GestureManager" where
  "elapse now g =
     (case shakeResetTimeout g of
        Some deadline \<Rightarrow> if deadline \<le> now then resetShakeCount g else g
      | None \<Rightarrow> g)"

definition motionAt :: "int \<times> Reading \<Rightarrow> GestureManager \<Rightarrow> GestureManager" where
  "motionAt s g = handleDeviceMotion (Some (snd s)) (fst s) (elapse (fst s) g)"

definition feed :: "(int \<times> Reading) list \<Rightarrow> GestureManager \<Rightarrow> GestureManager" where
  "feed samples g = fold motionAt samples g"

definition reading :: "real \<Rightarrow> real \<Rightarrow> real \<Rightarrow> Reading" where
  "reading a b c = \<lparr>readX = Some a, readY = Some b, readZ = Some c\<rparr>"

text \<open>The manager as constructed, enabled, with an \<^verbatim>\<open>onShake\<close> handler set.\<close>

definition enabledGestures :: GestureManager where
  "enabledGestures =
     \<lparr>isEnabled = True, hasOnShake = True,
      lastAcceleration = \<lparr>accX = 0, accY = 0, accZ = 0\<rparr>,
      shakeCount = 0, shakeResetTimeout = None, lastShakeTime = 0,
      shaken = [], notices = []\<rparr>"

text \<open>The handler the child dashboard sets: three shakes for the siren, four or more for SOS.\<close>

datatype alarm = PanicSiren | SendSOS

definition onShake :: "nat \<Rightarrow> alarm list" where
  "onShake n = (if n = 3 then [PanicSiren] else if n \<ge> 4 then [SendSOS] else [])"

definition alarms :: "GestureManager \<Rightarrow> alarm list" where
  "alarms g = concat (map onShake (shaken g))"

section \<open>Service worker: shake counting\<close>

text \<open>
  The service worker counts shakes too, in \<^verbatim>\<open>handleGestureData\<close>, from the motion
  events that the background service forwards to it with the time of the page's clock.
  Its state is \<^verbatim>\<open>gestureState\<close> and the flag \<^verbatim>\<open>config.gestureEnabled\<close>; the fields
  carry a prime where the gesture manager has one of the same name. \<open>resetTimers\<close>
  holds the deadlines of the pending timeouts (the worker cancels none), \<open>signalled\<close>
  the gestures it has told its clients of. \<open>None\<close> for the acceleration is a message
  without one: the destructuring throws and the \<^verbatim>\<open>catch\<close> leaves the state as it was.
\<close>

record Worker =
  gestureEnabled :: bool
  lastAcceleration' :: Acceleration
  shakeCount' :: nat
  lastShakeTime' :: int
  resetTimers :: "int list"
  signalled :: "string list"

definition workerShakeThreshold :: real where
  "workerShakeThreshold = 15"

definition workerShakeWindow :: int where
  "workerShakeWindow = 3000"

definition resetGestureState :: "Worker \<Rightarrow> Worker" where
  "resetGestureState w = w\<lparr>shakeCount' := 0, lastShakeTime' := 0\<rparr>"

definition handlePanicGesture :: "Worker \<Rightarrow> Worker" where
  "handlePanicGesture w = w\<lparr>signalled := signalled w @ [''panic'']\<rparr>"

definition handleSOSGesture :: "Worker \<Rightarrow> Worker" where
  "handleSOSGesture w = w\<lparr>signalled := signalled w @ [''sos'']\<rparr>"

text \<open>
  \<open>sentAt\<close> is the \<^verbatim>\<open>timestamp\<close> of the message, \<open>now\<close> the worker's clock when it
  handles it. As in the gesture manager, the \<^verbatim>\<open>return\<close> of the SOS branch comes before
  the update of the last acceleration.
\<close>

definition handleGestureData :: "Reading option \<Rightarrow> int \<Rightarrow> int \<Rightarrow> Worker \<Rightarrow> Worker" where
  "handleGestureData acceleration sentAt now w =
     (if \<not> gestureEnabled w then w
      else
        (case acceleration of
           None \<Rightarrow> w
         | Some a \<Rightarrow>
             (let sample = \<lparr>accX = component (readX a), accY = component (readY a),
                            accZ = component (readZ a)\<rparr>
              in if totalDelta sample (lastAcceleration' w) > workerShakeThreshold
                      \<and> sentAt - lastShakeTime' w > 500 then
                   (let w1 = w\<lparr>shakeCount' := shakeCount' w + 1, lastShakeTime' := sentAt\<rparr>
                    in if shakeCount' w1 = 3 then
                         (handlePanicGesture w1)
                           \<lparr>resetTimers := resetTimers w1 @ [now + workerShakeWindow],
                            lastAcceleration' := sample\<rparr>
                       else if shakeCount' w1 \<ge> 4 then
                         resetGestureState (handleSOSGesture w1)
                       else
                         w1\<lparr>resetTimers := resetTimers w1 @ [now + workerShakeWindow],
                            lastAcceleration' := sample\<rparr>)
                 else w\<lparr>lastAcceleration' := sample\<rparr>)))"

text \<open>
  A timeout of the worker, run at the instant \<open>t\<close>; and the timeouts that have come
  due, run in the order they were set, each at its deadline, before a later message.
\<close>

definition fireReset :: "int \<Rightarrow> Worker \<Rightarrow> Worker" where
  "fireReset t w =
     (if t - lastShakeTime' w > workerShakeWindow then resetGestureState w else w)"

definition workerElapse :: "int \<Rightarrow> Worker \<Rightarrow> Worker" where
  "workerElapse now w =
     (fold fireReset (filter (\<lambda>d. d \<le> now) (resetTimers w)) w)
       \<lparr>resetTimers := filter (\<lambda>d. now < d) (resetTimers w)\<rparr>"

text \<open>A forwarded motion event, handled at the time it carries; and a run of them.\<close>

definition gestureAt :: "int \<times> Reading \<Rightarrow> Worker \<Rightarrow> Worker" where
  "gestureAt s w = handleGestureData (Some (snd s)) (fst s) (fst s) (workerElapse (fst s) w)"

definition forwarded :: "(int \<times> Reading) list \<Rightarrow> Worker \<Rightarrow> Worker" where
  "forwarded samples w = fold gestureAt samples w"

text \<open>The worker as its script starts it.\<close>

definition serviceWorkerState :: Worker where
  "serviceWorkerState =
     \<lparr>gestureEnabled = True, lastAcceleration' = \<lparr>accX = 0, accY = 0, accZ = 0\<rparr>,
      shakeCount' = 0, lastShakeTime' = 0, resetTimers = [], signalled = []\<rparr>"

section \<open>Background service\<close>

text \<open>
  What the browser offers and how its calls end is a parameter: a \<open>Platform\<close> says which
  capabilities exist and which calls fail. Every asynchronous call of the platform
  settles: it resolves or it rejects. The \<^verbatim>\<open>Notification\<close> constructor is legal on a
  platform or it is not (where it is not, every \<^verbatim>\<open>new Notification\<close> throws a
  \<^verbatim>\<open>TypeError\<close>).
\<close>

record Platform =
  hasWakeLock :: bool
  wakeLockGranted :: bool
  hasServiceWorker :: bool
  registerSucceeds :: bool
  workerActive :: bool
  hasGeolocation :: bool
  hasDeviceMotion :: bool
  motionNeedsPermission :: bool
  notificationsGranted :: bool
  notificationThrows :: bool
  clearWatchThrows :: bool
  clearIntervalThrows :: bool
  releaseRejects :: bool
  postMessageThrows :: bool

record BackgroundService =
  isRunning :: bool
  locationWatchId :: "nat option"
  heartbeatInterval :: "nat option"
  wakeLock :: "nat option"
  serviceWorker :: bool

text \<open>
  Around the fields of the class, the resources of the device: the live location watches
  and interval timers, the wake-lock sentinels still held and those that carry the
  \<^verbatim>\<open>release\<close> listener, the wake-lock requests not yet answered, the messages posted to
  the service worker, the motion listeners, the notifications shown. Handles are drawn
  from \<open>nextHandle\<close>, which starts at 1.
\<close>

record Device = BackgroundService +
  watches :: "nat list"
  intervals :: "nat list"
  heldLocks :: "nat list"
  releaseListeners :: "nat list"
  lockRequests :: nat
  workerInbox :: "string list"
  motionListeners :: nat
  permissionPrompts :: nat
  shown :: "string list"
  nextHandle :: nat

datatype 's exec = Normal 's | Abrupt 's

definition andThen :: "'s exec \<Rightarrow> ('s \<Rightarrow> 's exec) \<Rightarrow> 's exec" where
  "andThen m f = (case m of Normal s \<Rightarrow> f s | Abrupt s \<Rightarrow> Abrupt s)"

definition acquireWakeLock :: "Platform \<Rightarrow> Device \<Rightarrow> Device" where
  "acquireWakeLock p d =
     (if hasWakeLock p then
        (if wakeLockGranted p then
           d\<lparr>wakeLock := Some (nextHandle d),
              heldLocks := heldLocks d @ [nextHandle d],
              releaseListeners := releaseListeners d @ [nextHandle d],
              nextHandle := Suc (nextHandle d)\<rparr>
         else d)
      else d)"

text \<open>
  The \<^verbatim>\<open>release\<close> listener that \<^verbatim>\<open>acquireWakeLock\<close> registers, up to its
  \<^verbatim>\<open>await\<close>, and the answer to the request it makes.
\<close>

definition onWakeLockRelease :: "Device \<Rightarrow> Device" where
  "onWakeLockRelease d = (if isRunning d then d\<lparr>lockRequests := Suc (lockRequests d)\<rparr> else d)"

definition onWakeLockReacquired :: "Platform \<Rightarrow> Device \<Rightarrow> Device" where
  "onWakeLockReacquired p d =
     (if lockRequests d = 0 then d
      else if wakeLockGranted p then
        d\<lparr>lockRequests := lockRequests d - 1,
           wakeLock := Some (nextHandle d),
           heldLocks := heldLocks d @ [nextHandle d],
           nextHandle := Suc (nextHandle d)\<rparr>
      else d\<lparr>lockRequests := lockRequests d - 1\<rparr>)"

definition registerServiceWorker :: "Platform \<Rightarrow> Device \<Rightarrow> Device" where
  "registerServiceWorker p d =
     (if hasServiceWorker p then
        (if registerSucceeds p then d\<lparr>serviceWorker := workerActive p\<rparr> else d)
      else d)"

definition startLocationTracking :: "Platform \<Rightarrow> Device \<Rightarrow> Device exec" where
  "startLocationTracking p d =
     (if \<not> hasGeolocation p then Abrupt d
      else Normal (d\<lparr>locationWatchId := Some (nextHandle d),
                     watches := watches d @ [nextHandle d],
                     nextHandle := Suc (nextHandle d)\<rparr>))"

definition startHeartbeat :: "Device \<Rightarrow> Device" where
  "startHeartbeat d =
     d\<lparr>heartbeatInterval := Some (nextHandle d),
        intervals := intervals d @ [nextHandle d],
        nextHandle := Suc (nextHandle d)\<rparr>"

definition enableBackgroundGestures :: "Platform \<Rightarrow> Device \<Rightarrow> Device" where
  "enableBackgroundGestures p d =
     (if hasDeviceMotion p then
        (if motionNeedsPermission p then d\<lparr>permissionPrompts := Suc (permissionPrompts d)\<rparr>
         else d\<lparr>motionListeners := Suc (motionListeners d)\<rparr>)
      else d)"

definition newNotification :: "Platform \<Rightarrow> string \<Rightarrow> Device \<Rightarrow> Device exec" where
  "newNotification p tag d =
     (if notificationThrows p then Abrupt d else Normal (d\<lparr>shown := shown d @ [tag]\<rparr>))"

definition requestBatteryOptimizationExemption :: "Platform \<Rightarrow> Device \<Rightarrow> Device exec" where
  "requestBatteryOptimizationExemption p d =
     (if notificationsGranted p then newNotification p ''battery-optimization'' d else Normal d)"

definition showBackgroundNotification :: "Platform \<Rightarrow> Device \<Rightarrow> Device exec" where
  "showBackgroundNotification p d =
     (if notificationsGranted p then newNotification p ''background-service'' d else Normal d)"

text \<open>\<^verbatim>\<open>if (childCode)\<close>: a child code that is given and not the empty string.\<close>

definition given :: "string option \<Rightarrow> bool" where
  "given c = (case c of None \<Rightarrow> False | Some s \<Rightarrow> s \<noteq> [])"

text \<open>
  \<^verbatim>\<open>start\<close>: the steps of the \<^verbatim>\<open>try\<close> in order; the \<^verbatim>\<open>catch\<close> returns
  \<^verbatim>\<open>false\<close> with the state as the failing step left it.
\<close>

definition startSteps :: "Platform \<Rightarrow> string option \<Rightarrow> Device \<Rightarrow> Device exec" where
  "startSteps p childCode d =
     andThen (Normal (registerServiceWorker p (acquireWakeLock p d))) (\<lambda>d1.
     andThen (if given childCode then startLocationTracking p d1 else Normal d1) (\<lambda>d2.
     andThen (Normal (enableBackgroundGestures p (startHeartbeat d2))) (\<lambda>d3.
     andThen (requestBatteryOptimizationExemption p d3) (\<lambda>d4.
     andThen (Normal (d4\<lparr>isRunning := True\<rparr>)) (\<lambda>d5.
     showBackgroundNotification p d5)))))"

definition start :: "Platform \<Rightarrow> string option \<Rightarrow> Device \<Rightarrow> bool \<times> Device" where
  "start p childCode d =
     (if isRunning d then (True, d)
      else (case startSteps p childCode d of
              Normal d' \<Rightarrow> (True, d')
            | Abrupt d' \<Rightarrow> (False, d')))"

text \<open>The release steps of \<^verbatim>\<open>stop\<close>, each as the source guards it.\<close>

definition stopLocation :: "Platform \<Rightarrow> Device \<Rightarrow> Device exec" where
  "stopLocation p d =
     (case locationWatchId d of
        None \<Rightarrow> Normal d
      | Some w \<Rightarrow>
          if w = 0 then Normal d
          else if clearWatchThrows p then Abrupt d
          else Normal (d\<lparr>watches := removeAll w (watches d), locationWatchId := None\<rparr>))"

definition stopHeartbeat :: "Platform \<Rightarrow> Device \<Rightarrow> Device exec" where
  "stopHeartbeat p d =
     (case heartbeatInterval d of
        None \<Rightarrow> Normal d
      | Some h \<Rightarrow>
          if h = 0 then Normal d
          else if clearIntervalThrows p then Abrupt d
          else Normal (d\<lparr>intervals := removeAll h (intervals d), heartbeatInterval := None\<rparr>))"

text \<open>
  \<^verbatim>\<open>await this.wakeLock.release()\<close>: releasing a sentinel that is held fires its
  \<^verbatim>\<open>release\<close> event, and with it the listener, before \<^verbatim>\<open>stop\<close> goes on.
\<close>

definition releaseSentinel :: "nat \<Rightarrow> Device \<Rightarrow> Device" where
  "releaseSentinel l d =
     (if l \<in> set (heldLocks d) then
        (let d1 = d\<lparr>heldLocks := removeAll l (heldLocks d)\<rparr>
         in if l \<in> set (releaseListeners d) then onWakeLockRelease d1 else d1)
      else d)"

definition stopWakeLock :: "Platform \<Rightarrow> Device \<Rightarrow> Device exec" where
  "stopWakeLock p d =
     (case wakeLock d of
        None \<Rightarrow> Normal d
      | Some l \<Rightarrow>
          if releaseRejects p then Abrupt d
          else Normal ((releaseSentinel l d)\<lparr>wakeLock := None\<rparr>))"

definition stopWorker :: "Platform \<Rightarrow> Device \<Rightarrow> Device exec" where
  "stopWorker p d =
     (if serviceWorker d then
        (if postMessageThrows p then Abrupt d
         else Normal (d\<lparr>workerInbox := workerInbox d @ [''STOP_BACKGROUND_SERVICE'']\<rparr>))
      else Normal d)"

definition stopSteps :: "Platform \<Rightarrow> Device \<Rightarrow> Device exec" where
  "stopSteps p d =
     andThen (stopLocation p d) (\<lambda>d1.
     andThen (stopHeartbeat p d1) (\<lambda>d2.
     andThen (stopWakeLock p d2) (\<lambda>d3.
     andThen (stopWorker p d3) (\<lambda>d4.
     Normal (d4\<lparr>isRunning := False\<rparr>)))))"

text \<open>\<^verbatim>\<open>stop\<close>: one \<^verbatim>\<open>try\<close> around all the steps; the \<^verbatim>\<open>catch\<close> only logs.\<close>

definition stop :: "Platform \<Rightarrow> Device \<Rightarrow> Device" where
  "stop p d =
     (if \<not> isRunning d then d
      else (case stopSteps p d of Normal d' \<Rightarrow> d' | Abrupt d' \<Rightarrow> d'))"

definition isServiceRunning :: "Device \<Rightarrow> bool" where
  "isServiceRunning d = isRunning d"

text \<open>The service as constructed, on a device with nothing running.\<close>

definition idleDevice :: Device where
  "idleDevice =
     \<lparr>isRunning = False, locationWatchId = None, heartbeatInterval = None,
      wakeLock = None, serviceWorker = False,
      watches = [], intervals = [], heldLocks = [], releaseListeners = [],
      lockRequests = 0, workerInbox = [], motionListeners = 0, permissionPrompts = 0,
      shown = [], nextHandle = 1\<rparr>"

section \<open>Views of the offline manager's state\<close>

text \<open>
  The actions in the queue, in queue order; the condition that every reference in the
  queue has been allocated, so that a new object never replaces a queued one; and the
  value a stored text parses to.
\<close>

definition queued :: "Runtime \<Rightarrow> QueuedAction list" where
  "queued rt = map (heap rt) (syncQueue rt)"

definition heapOk :: "Runtime \<Rightarrow> bool" where
  "heapOk rt \<longleftrightarrow> list_all (\<lambda>r. r < nextRef rt) (syncQueue rt)"

fun decoded :: "blob option \<Rightarrow> json option" where
  "decoded (Some (Encoded v)) = Some v"
| "decoded b = None"

text \<open>
  One pass of the drain's loop over a whole snapshot, as a fold: \<open>visit\<close> is one
  iteration (the dispatch of the object \<open>r\<close> and the loop body on its result) on the
  heap, the list of marked ids and the record of remote writes; \<open>sweep\<close> runs the
  iterations a suspended drain still has before it.
\<close>

definition visit ::
  "remote \<Rightarrow> nat \<Rightarrow> (nat \<Rightarrow> QueuedAction) \<times> string list \<times> rop list
     \<Rightarrow> (nat \<Rightarrow> QueuedAction) \<times> string list \<times> rop list" where
  "visit remote r s =
     (let res = syncAction remote (fst s r);
          hs = settle (Resolved (fst res)) r (fst s, fst (snd s))
      in (fst hs, snd hs, snd (snd s) @ snd res))"

definition sweep ::
  "remote \<Rightarrow> Drain \<Rightarrow> Runtime \<Rightarrow> (nat \<Rightarrow> QueuedAction) \<times> string list \<times> rop list" where
  "sweep remote t rt =
     fold (visit remote) (current t # pending t) (heap rt, successfulSyncs t, remoteLog rt)"

text \<open>
  No drain is in flight; the dispatch of an action succeeds against a remote; the action
  after one more failed attempt; the action leaves the queue at the end of a drain
  against the remote (dispatched, or out of retries).
\<close>

definition idle :: "Runtime \<Rightarrow> bool" where
  "idle rt \<longleftrightarrow> tasks rt = [] \<and> \<not> syncInProgress rt"

definition succeeds :: "remote \<Rightarrow> QueuedAction \<Rightarrow> bool" where
  "succeeds remote a = fst (syncAction remote a)"

definition retried :: "QueuedAction \<Rightarrow> QueuedAction" where
  "retried a = a\<lparr>retryCount := retryCount a + 1\<rparr>"

definition settledBy :: "remote \<Rightarrow> QueuedAction \<Rightarrow> bool" where
  "settledBy remote a \<longleftrightarrow> succeeds remote a \<or> maxRetries \<le> retryCount a + 1"

text \<open>
  Drains one after the other, each against the remote and at the time given; how often
  the object \<open>r\<close> has been dispatched so far; and the condition that no other action in
  the queue carries the id of \<open>r\<close> (the batch removal goes by id).
\<close>

definition drains :: "(remote \<times> int) list \<Rightarrow> Runtime \<Rightarrow> Runtime" where
  "drains ps rt = fold (\<lambda>p. drain (fst p) (snd p)) ps rt"

definition attempts :: "nat \<Rightarrow> Runtime \<Rightarrow> nat" where
  "attempts r rt = length (filter (\<lambda>e. snd e = r) (dispatchLog rt))"

definition soleId :: "nat \<Rightarrow> Runtime \<Rightarrow> bool" where
  "soleId r rt \<longleftrightarrow> (\<forall>q \<in> set (syncQueue rt). q \<noteq> r \<longrightarrow> id' (heap rt q) \<noteq> id' (heap rt r))"

text \<open>
  An action that \<^verbatim>\<open>syncAction\<close> can dispatch when the remote accepts every request: its
  type is one of the four, and its payload can be read (\<^verbatim>\<open>sos\<close> reads nothing of it).
  These are exactly the actions whose dispatch succeeds against such a remote
  (\<open>succeeds_always\<close> below).
\<close>

definition dispatchable :: "QueuedAction \<Rightarrow> bool" where
  "dispatchable a \<longleftrightarrow>
     type' a = ''sos'' \<or>
     (type' a = ''location'' \<or> type' a = ''message'' \<or> type' a = ''status'')
       \<and> readable (data a) \<noteq> None"

text \<open>
  What holds of the runtime whatever the event loop delivers: the queue holds distinct
  allocated objects; at most one drain is suspended, and the flag says whether one is;
  the suspended drain has distinct allocated objects before it, none of which it has
  dispatched yet; and the dispatch record has no entry twice.
\<close>

definition wellFormed :: "Runtime \<Rightarrow> bool" where
  "wellFormed rt \<longleftrightarrow>
     heapOk rt \<and> distinct (syncQueue rt) \<and> length (tasks rt) \<le> 1
     \<and> (syncInProgress rt = (tasks rt \<noteq> []))
     \<and> (\<forall>t \<in> set (tasks rt).
           drainId t < drainCount rt \<and> distinct (current t # pending t)
           \<and> (\<forall>r \<in> set (current t # pending t).
                 r < nextRef rt \<and> (drainId t, r) \<notin> set (dispatchLog rt)))
     \<and> (\<forall>e \<in> set (dispatchLog rt). fst e < drainCount rt)
     \<and> distinct (dispatchLog rt)"

section \<open>The loaded state, as its description words it\<close>









section \<open>Scenarios\<close>

text \<open>A store with nothing in it that accepts every write.\<close>

definition emptyStorage :: Storage where
  "emptyStorage = \<lparr>items = (\<lambda>k. None), refuses = (\<lambda>k v. False)\<rparr>"

text \<open>
  \<open>stored n\<close>: a fresh manager after \<open>n\<close> calls of \<^verbatim>\<open>storeOfflineData\<close> on the
  messages, with the payloads numbered from 0.
\<close>

definition numbered :: "nat \<Rightarrow> json option \<times> int" where
  "numbered i = (Some (JObj [(''n'', JNum (int i))]), 0)"

definition stored :: "nat \<Rightarrow> Runtime" where
  "stored n =
     fold (\<lambda>s. storeOfflineData Messages (fst s) (snd s)) (map numbered [0..<n])
       (construct False 0 emptyStorage)"

text \<open>
  Three accelerations, each far from the other two and from rest: every motion sample of
  the shake scenarios differs from the one before it by 40, above the threshold of 15.
\<close>

definition shakeU :: Reading where
  "shakeU = reading 20 0 0"

definition shakeV :: Reading where
  "shakeV = reading 0 20 0"

definition shakeW :: Reading where
  "shakeW = reading 0 0 20"

text \<open>
  A platform with every capability on which no call fails, and the service started on
  it for a child: the wake lock is sentinel 1, the location watch 2, the heartbeat 3.
\<close>

definition capable :: Platform where
  "capable =
     \<lparr>hasWakeLock = True, wakeLockGranted = True, hasServiceWorker = True,
      registerSucceeds = True, workerActive = True, hasGeolocation = True,
      hasDeviceMotion = True, motionNeedsPermission = False,
      notificationsGranted = True, notificationThrows = False,
      clearWatchThrows = False, clearIntervalThrows = False, releaseRejects = False,
      postMessageThrows = False\<rparr>"

definition tracking :: Device where
  "tracking = snd (start capable (Some ''kid'') idleDevice)"




text \<open>A remote that accepts every request, and a payload for the child \<^verbatim>\<open>kid\<close>.\<close>

definition always :: remote where
  "always = (\<lambda>op. True)"

definition kidPayload :: "string \<Rightarrow> json \<Rightarrow> json option" where
  "kidPayload k v = Some (JObj [(''childCode'', JStr ''kid''), (k, v)])"

text \<open>
  A manager started online on a store whose queue holds one message without payload: its
  dispatch fails against every remote.
\<close>

definition poisonedStorage :: Storage where
  "poisonedStorage =
     \<lparr>items = [''safestep_sync_queue'' \<mapsto>
                  Encoded (JArr [JObj [(''id'', JStr ''message_1_x''), (''type'', JStr ''message''),
                                       (''timestamp'', JNum 1), (''retryCount'', JNum 0)]])],
      refuses = (\<lambda>k v. False)\<rparr>"

definition poisoned :: Runtime where
  "poisoned = construct True 0 poisonedStorage"

text \<open>A manager started offline on a store whose queue holds three actions of three kinds.\<close>

definition backlogStorage :: Storage where
  "backlogStorage =
     \<lparr>items = [''safestep_sync_queue'' \<mapsto>
                  Encoded (JArr [JObj [(''id'', JStr ''sos_1_x''), (''type'', JStr ''sos''),
                                       (''data'', JObj [(''childCode'', JStr ''kid'')]),
                                       (''timestamp'', JNum 1), (''retryCount'', JNum 0)],
                                 JObj [(''id'', JStr ''status_2_y''), (''type'', JStr ''status''),
                                       (''data'', JObj [(''childCode'', JStr ''kid''),
                                                        (''status'', JStr ''online'')]),
                                       (''timestamp'', JNum 2), (''retryCount'', JNum 1)],
                                 JObj [(''id'', JStr ''message_3_z''), (''type'', JStr ''message''),
                                       (''data'', JObj [(''childCode'', JStr ''kid''),
                                                        (''message'', JStr ''hello'')]),
                                       (''timestamp'', JNum 3), (''retryCount'', JNum 0)]])],
      refuses = (\<lambda>k v. False)\<rparr>"

definition backlog :: Runtime where
  "backlog = construct False 0 backlogStorage"

text \<open>
  A manager started online on an empty store, after two calls of \<^verbatim>\<open>queueAction\<close>: the
  first has begun a drain, which is waiting for its dispatch when the second arrives.
\<close>

definition sosPayload :: "json option" where
  "sosPayload = Some (JObj [(''childCode'', JStr ''kid''), (''status'', JStr ''active'')])"

definition draining :: Runtime where
  "draining = run [QueueAction ''sos'' sosPayload 5 ''a'', QueueAction ''sos'' sosPayload 6 ''b'']
                (construct True 0 emptyStorage)"

text \<open>
  A manager started online on an empty store that loses the connection during a drain:
  the first \<^verbatim>\<open>queueAction\<close> has begun a drain, which is waiting for its dispatch when
  the \<^verbatim>\<open>offline\<close> event arrives; the second action is queued offline.
\<close>

definition interrupted :: Runtime where
  "interrupted =
     run [QueueAction ''sos'' sosPayload 5 ''a'', Offline, QueueAction ''sos'' sosPayload 6 ''b'']
       (construct True 0 emptyStorage)"

text \<open>A manager started offline on the store whose queue holds the message without payload.\<close>

definition unreadable :: Runtime where
  "unreadable = construct False 0 poisonedStorage"

section \<open>Proofs\<close>

subsection \<open>The capped cache\<close>

lemma pushCapped_length: "length xs \<le> 100 \<Longrightarrow> length (pushCapped e xs) \<le> 100"
  by (auto simp add: pushCapped_def Let_def)

lemma pushCapped_full: "length xs = 100 \<Longrightarrow> pushCapped e xs = drop 50 xs @ [e]"
  by (simp add: pushCapped_def Let_def)

lemma pushCapped_room: "length xs < 100 \<Longrightarrow> pushCapped e xs = xs @ [e]"
  by (simp add: pushCapped_def Let_def)

lemma fold_pushCapped_room:
  "length xs + length es \<le> 100 \<Longrightarrow> fold pushCapped es xs = xs @ es"
  by (induction es arbitrary: xs) (simp_all add: pushCapped_room)

lemma fold_pushCapped_over:
  assumes "100 < length es" and "length es \<le> 150"
  shows "fold pushCapped es [] = drop 50 es"
proof -
  define a where "a = take 100 es"
  define b where "b = es ! 100"
  define c where "c = drop 101 es"
  have "es = take 100 es @ es ! 100 # drop (Suc 100) es"
    by (rule id_take_nth_drop) (simp add: assms)
  then have es: "es = a @ b # c"
    by (simp add: a_def b_def c_def)
  have la: "length a = 100" and lc: "length c \<le> 49"
    using assms by (simp_all add: a_def c_def)
  have "fold pushCapped es [] = fold pushCapped c (pushCapped b (fold pushCapped a []))"
    by (simp add: es)
  also have "fold pushCapped a [] = a"
    using fold_pushCapped_room[of "[]" a] la by simp
  also have "pushCapped b a = drop 50 a @ [b]"
    using la by (rule pushCapped_full)
  also have "fold pushCapped c (drop 50 a @ [b]) = (drop 50 a @ [b]) @ c"
    by (rule fold_pushCapped_room) (use la lc in simp)
  also have "\<dots> = drop 50 es"
    by (simp add: es la)
  finally show ?thesis .
qed

lemma offlineData_saveOfflineData [simp]: "offlineData (saveOfflineData rt) = offlineData rt"
  by (simp add: saveOfflineData_def split: option.splits)

lemma category_storeOfflineData:
  "k \<noteq> LastSync \<Longrightarrow>
   category k (offlineData (storeOfflineData k d now rt))
     = pushCapped (offlineEntry now d) (category k (offlineData rt))"
  by (cases k) (simp_all add: storeOfflineData_def storeCategory_def category_def)

lemma category_fold_storeOfflineData:
  "k \<noteq> LastSync \<Longrightarrow>
   category k (offlineData (fold (\<lambda>s. storeOfflineData k (fst s) (snd s)) ds rt))
     = fold pushCapped (map (\<lambda>s. offlineEntry (snd s) (fst s)) ds) (category k (offlineData rt))"
  by (induction ds arbitrary: rt) (simp_all add: category_storeOfflineData)

lemma construct_emptyStorage:
  "offlineData (construct online now emptyStorage) = emptyOfflineData now"
  by (simp add: construct_def loadOfflineData_def getItem_def emptyStorage_def loadCache_def
      loadQueue_def)

lemma messages_stored:
  "category Messages (offlineData (stored n))
     = fold pushCapped (map (\<lambda>s. offlineEntry (snd s) (fst s)) (map numbered [0..<n])) []"
  using category_fold_storeOfflineData[of Messages "map numbered [0..<n]"
      "construct False 0 emptyStorage"]
  by (simp add: stored_def construct_emptyStorage emptyOfflineData_def category_def
      del: upt_rec_numeral)

text \<open>
  C4, as the code has it. A category list that holds at most 100 entries still does after
  \<^verbatim>\<open>storeOfflineData\<close>. The insertion into a list of exactly 100 entries does not evict
  the oldest entry alone: it evicts the 50 oldest and leaves 51. Storing 150 payloads into
  an empty category leaves the last 100 of them, the 50 oldest evicted.
\<close>

theorem storeOfflineData_capped:
  assumes "k \<noteq> LastSync"
    and "length (category k (offlineData rt)) \<le> 100"
    and "category k (offlineData rt0) = []"
    and "length ds = 150"
  shows "length (category k (offlineData (storeOfflineData k d now rt))) \<le> 100
       \<and> category k (offlineData (storeOfflineData k d now rt))
           = (if length (category k (offlineData rt)) = 100
              then drop 50 (category k (offlineData rt)) @ [offlineEntry now d]
              else category k (offlineData rt) @ [offlineEntry now d])
       \<and> category k (offlineData (fold (\<lambda>s. storeOfflineData k (fst s) (snd s)) ds rt0))
           = map (\<lambda>s. offlineEntry (snd s) (fst s)) (drop 50 ds)"
  using assms
  by (simp add: category_storeOfflineData category_fold_storeOfflineData pushCapped_length
      pushCapped_full pushCapped_room fold_pushCapped_over drop_map)

theorem storeOfflineData_capped_witness:
  "length (category Messages (offlineData (storeOfflineData Messages None 7 (stored 100)))) = 51
   \<and> length (category Messages (offlineData
        (fold (\<lambda>s. storeOfflineData Messages (fst s) (snd s)) (map numbered [0..<150])
           (stored 0)))) = 100"
proof -
  have full: "category Messages (offlineData (stored 100))
                = map (\<lambda>s. offlineEntry (snd s) (fst s)) (map numbered [0..<100])"
    unfolding messages_stored
    using fold_pushCapped_room[of "[]" "map (\<lambda>s. offlineEntry (snd s) (fst s)) (map numbered [0..<100])"]
    by (simp del: upt_rec_numeral)
  have none: "category Messages (offlineData (stored 0)) = []"
    unfolding messages_stored by simp
  show ?thesis
    using storeOfflineData_capped[of Messages "stored 100" "stored 0" "map numbered [0..<150]" None 7]
    by (simp add: full none del: upt_rec_numeral)
qed

text \<open>
  C4 as stated fails: after 101 insertions the list holds 51 entries, not 100, and its
  oldest entry is number 50; the insertion at capacity has evicted entries 0 to 49.
\<close>

theorem storeOfflineData_evicts_fifty:
  "length (category Messages (offlineData (stored 101))) = 51 \<and>
   category Messages (offlineData (stored 101)) ! 0
     = JObj [(''n'', JNum 50), (''_offline'', JBool True), (''_timestamp'', JNum 0)]"
proof -
  let ?es = "map (\<lambda>s. offlineEntry (snd s) (fst s)) (map numbered [0..<101])"
  have eq: "category Messages (offlineData (stored 101)) = drop 50 ?es"
    unfolding messages_stored by (rule fold_pushCapped_over) simp_all
  have "drop 50 ?es ! 0 = offlineEntry 0 (Some (JObj [(''n'', JNum 50)]))"
    by (simp add: numbered_def del: upt_rec_numeral)
  then show ?thesis
    by (simp add: eq offlineEntry_def del: upt_rec_numeral)
qed

subsection \<open>Shake counting\<close>

lemmas gesture_defs = feed_def motionAt_def handleDeviceMotion_def countShake_def elapse_def
  totalDelta_def component_def shakeThreshold_def shakeWindow_def resetShakeCount_def
  callOnShake_def showGestureNotification_def enabledGestures_def reading_def
  shakeU_def shakeV_def shakeW_def alarms_def onShake_def

lemmas worker_defs = forwarded_def gestureAt_def handleGestureData_def workerElapse_def
  fireReset_def resetGestureState_def handlePanicGesture_def handleSOSGesture_def
  workerShakeThreshold_def workerShakeWindow_def serviceWorkerState_def Let_def

text \<open>
  C3. The claim is what a shake counter should do, and the code does not do it at its
  last step. At a clock reading of 1700000000000 ms, samples above the threshold 0, 600,
  1200 and 1800 ms later raise the panic siren once, at the third, and the SOS at the
  fourth, after which the count is 0: so far as claimed. A further sample above the
  threshold 100 ms after the SOS should start a fresh count at 1. In the gesture manager
  it is ignored and the count stays 0: the SOS shake has set \<^verbatim>\<open>lastShakeTime\<close>, which
  \<^verbatim>\<open>resetShakeCount\<close> does not clear, so the sample falls inside the 500 ms between
  shakes. The service worker counts the same samples with the same rule, but its reset
  clears \<^verbatim>\<open>lastShakeTime\<close>, and there the count is 1, as claimed. The same difference
  shows on the timeline of the description (0, 600, 1200, 1800, 2200 and 2300 ms).
\<close>

theorem shake_after_sos_ignored:
  "alarms (feed [(1700000000000, shakeU), (1700000000600, shakeV)] enabledGestures) = []
   \<and> alarms (feed [(1700000000000, shakeU), (1700000000600, shakeV), (1700000001200, shakeU)]
               enabledGestures) = [PanicSiren]
   \<and> alarms (feed [(1700000000000, shakeU), (1700000000600, shakeV), (1700000001200, shakeU),
                    (1700000001800, shakeV)] enabledGestures) = [PanicSiren, SendSOS]
   \<and> shakeCount (feed [(1700000000000, shakeU), (1700000000600, shakeV), (1700000001200, shakeU),
                        (1700000001800, shakeV)] enabledGestures) = 0
   \<and> shakeCount (feed [(1700000000000, shakeU), (1700000000600, shakeV), (1700000001200, shakeU),
                        (1700000001800, shakeV), (1700000001900, shakeW)] enabledGestures) = 0
   \<and> lastShakeTime (feed [(1700000000000, shakeU), (1700000000600, shakeV),
                           (1700000001200, shakeU), (1700000001800, shakeV),
                           (1700000001900, shakeW)] enabledGestures) = 1700000001800
   \<and> alarms (feed [(1700000000000, shakeU), (1700000000600, shakeV), (1700000001200, shakeU),
                    (1700000001800, shakeV), (1700000001900, shakeW)] enabledGestures)
       = [PanicSiren, SendSOS]
   \<and> shakeCount' (forwarded [(1700000000000, shakeU), (1700000000600, shakeV),
                               (1700000001200, shakeU), (1700000001800, shakeV),
                               (1700000001900, shakeW)] serviceWorkerState) = 1
   \<and> signalled (forwarded [(1700000000000, shakeU), (1700000000600, shakeV),
                             (1700000001200, shakeU), (1700000001800, shakeV),
                             (1700000001900, shakeW)] serviceWorkerState) = [''panic'', ''sos'']
   \<and> shakeCount (feed [(1700000000000, shakeU), (1700000000600, shakeV), (1700000001200, shakeU),
                        (1700000001800, shakeV), (1700000002200, shakeW),
                        (1700000002300, shakeV)] enabledGestures) = 0
   \<and> shakeCount' (forwarded [(1700000000000, shakeU), (1700000000600, shakeV),
                               (1700000001200, shakeU), (1700000001800, shakeV),
                               (1700000002200, shakeW), (1700000002300, shakeV)]
                      serviceWorkerState) = 1"
  by (simp add: gesture_defs worker_defs)

subsection \<open>Background service\<close>

lemmas service_defs = start_def startSteps_def andThen_def acquireWakeLock_def
  registerServiceWorker_def startLocationTracking_def startHeartbeat_def
  enableBackgroundGestures_def requestBatteryOptimizationExemption_def
  showBackgroundNotification_def newNotification_def given_def
  stop_def stopSteps_def stopLocation_def stopHeartbeat_def stopWakeLock_def stopWorker_def
  releaseSentinel_def onWakeLockRelease_def Let_def

lemma tracking_fields:
  "isRunning tracking \<and> locationWatchId tracking = Some 2 \<and> heartbeatInterval tracking = Some 3
   \<and> wakeLock tracking = Some 1 \<and> watches tracking = [2] \<and> intervals tracking = [3]
   \<and> heldLocks tracking = [1] \<and> serviceWorker tracking"
  by (simp add: tracking_def service_defs capable_def idleDevice_def)

text \<open>
  C8. \<^verbatim>\<open>start\<close> is a function to a boolean: every exception of a step is caught. It
  returns \<^verbatim>\<open>true\<close> when the service already runs, or when no setup step fails; the
  steps that can fail are the location tracking (a child code is given and the platform
  has no geolocation) and the battery notice (notifications are granted and the
  constructor throws). The service is running afterwards exactly when \<^verbatim>\<open>true\<close> was
  returned, so a failed start leaves a stopped service stopped. Whether the platform has
  the wake-lock capability does not enter the result.
\<close>

theorem start_outcome:
  "fst (start p c d) = (isRunning d \<or>
       \<not> (given c \<and> \<not> hasGeolocation p) \<and> \<not> (notificationsGranted p \<and> notificationThrows p))
   \<and> isRunning (snd (start p c d)) = fst (start p c d)
   \<and> fst (start (p\<lparr>hasWakeLock := False\<rparr>) c d) = fst (start p c d)"
  by (simp add: service_defs)

theorem start_outcome_witness:
  "fst (start (capable\<lparr>hasWakeLock := False\<rparr>) (Some ''kid'') idleDevice)
   \<and> isRunning (snd (start (capable\<lparr>hasWakeLock := False\<rparr>) (Some ''kid'') idleDevice))
   \<and> \<not> fst (start (capable\<lparr>hasGeolocation := False\<rparr>) (Some ''kid'') idleDevice)
   \<and> \<not> isRunning (snd (start (capable\<lparr>hasGeolocation := False\<rparr>) (Some ''kid'') idleDevice))"
  using start_outcome[of "capable\<lparr>hasWakeLock := False\<rparr>" "Some ''kid''" idleDevice]
    start_outcome[of "capable\<lparr>hasGeolocation := False\<rparr>" "Some ''kid''" idleDevice]
  by (simp add: capable_def idleDevice_def given_def)

text \<open>
  C6, as the code has it. \<^verbatim>\<open>stop\<close> is a function to a state: it never throws. Called on
  a running service that holds a location watch \<open>w\<close>, a heartbeat timer \<open>h\<close> and a wake
  lock \<open>l\<close>, it leaves the service stopped, the watch and the timer cancelled and the
  sentinel released when no release step fails. The steps share one \<^verbatim>\<open>try\<close>: a step
  that fails skips every later step, so the later resources stay as they were and the
  service stays in the running state.
\<close>

theorem stop_outcome:
  assumes "isRunning d"
    and "locationWatchId d = Some w" and "w \<noteq> 0"
    and "heartbeatInterval d = Some h" and "h \<noteq> 0"
    and "wakeLock d = Some l"
  shows "isRunning (stop p d)
           = (clearWatchThrows p \<or> clearIntervalThrows p \<or> releaseRejects p
              \<or> (serviceWorker d \<and> postMessageThrows p))
       \<and> (w \<in> set (watches (stop p d))) = (w \<in> set (watches d) \<and> clearWatchThrows p)
       \<and> (h \<in> set (intervals (stop p d)))
           = (h \<in> set (intervals d) \<and> (clearWatchThrows p \<or> clearIntervalThrows p))
       \<and> (l \<in> set (heldLocks (stop p d)))
           = (l \<in> set (heldLocks d)
              \<and> (clearWatchThrows p \<or> clearIntervalThrows p \<or> releaseRejects p))"
  using assms by (simp add: service_defs)

theorem stop_outcome_witness:
  "\<not> isRunning (stop capable tracking)
   \<and> 2 \<notin> set (watches (stop capable tracking))
   \<and> 3 \<notin> set (intervals (stop capable tracking))
   \<and> 1 \<notin> set (heldLocks (stop capable tracking))"
  using stop_outcome[of tracking 2 3 1 capable] tracking_fields
  by (simp add: capable_def)

text \<open>
  C6 as stated fails: when \<^verbatim>\<open>clearWatch\<close> throws, the heartbeat timer is not cancelled,
  the wake lock is not released, and the service is still running after \<^verbatim>\<open>stop\<close>.
\<close>

theorem stop_failure_skips_rest:
  "isRunning (stop (capable\<lparr>clearWatchThrows := True\<rparr>) tracking)
   \<and> intervals (stop (capable\<lparr>clearWatchThrows := True\<rparr>) tracking) = [3]
   \<and> heldLocks (stop (capable\<lparr>clearWatchThrows := True\<rparr>) tracking) = [1]"
  using tracking_fields by (simp add: service_defs capable_def)

subsection \<open>Persistence\<close>

lemma queued_alloc:
  "heapOk rt \<Longrightarrow> queued (alloc a rt) = queued rt @ [a] \<and> heapOk (alloc a rt)"
  by (auto simp add: queued_def heapOk_def alloc_def list_all_iff less_Suc_eq)

lemma queued_fold_alloc:
  "heapOk rt \<Longrightarrow> queued (fold alloc as rt) = queued rt @ as \<and> heapOk (fold alloc as rt)"
  by (induction as arbitrary: rt) (simp_all add: queued_alloc)

lemma queued_fold_alloc_fresh:
  "syncQueue rt = [] \<Longrightarrow> queued (fold alloc as rt) = as"
  using queued_fold_alloc[of rt as] by (simp add: heapOk_def queued_def)

lemma queued_empty: "syncQueue rt = [] \<Longrightarrow> queued rt = []"
  by (simp add: queued_def)

lemma queued_saveOfflineData [simp]: "queued (saveOfflineData rt) = queued rt"
  by (simp add: saveOfflineData_def queued_def split: option.splits)

lemma heapOk_saveOfflineData [simp]: "heapOk (saveOfflineData rt) = heapOk rt"
  by (simp add: saveOfflineData_def heapOk_def split: option.splits)

lemma queued_resetOfflineData [simp]: "queued (resetOfflineData now rt) = []"
  by (simp add: resetOfflineData_def) (simp add: queued_def)

lemma heapOk_resetOfflineData [simp]: "heapOk (resetOfflineData now rt)"
  by (simp add: resetOfflineData_def) (simp add: heapOk_def)

lemma offlineData_resetOfflineData [simp]:
  "offlineData (resetOfflineData now rt) = emptyOfflineData now"
  by (simp add: resetOfflineData_def)

lemma loadCache_cases:
  "loadCache now b rt =
     (case b of
        Some Garbled \<Rightarrow> None
      | Some (Encoded p) \<Rightarrow>
          if validOfflineData p then Some (rt\<lparr>offlineData := parsedOfflineData p\<rparr>)
          else Some (resetOfflineData now rt)
      | _ \<Rightarrow> Some rt)"
  by (cases b rule: present.cases) (simp_all add: loadCache_def)

lemma loadQueue_cases:
  "loadQueue b rt =
     (case b of
        Some Garbled \<Rightarrow> None
      | Some (Encoded q) \<Rightarrow>
          Some (fold alloc
                  (List.map_filter queuedItem (filter validQueueItem (elements (Some q))))
                  (rt\<lparr>syncQueue := []\<rparr>))
      | _ \<Rightarrow> Some rt)"
proof (cases b rule: present.cases)
  case (4 v)
  then show ?thesis
    by (cases v) (simp_all add: loadQueue_def map_filter_simps)
qed (simp_all add: loadQueue_def)

lemma queued_loadQueue:
  "loadQueue b rt = Some rt' \<Longrightarrow>
   queued rt' = (if present b
                 then List.map_filter queuedItem (filter validQueueItem (elements (decoded b)))
                 else queued rt)"
  using queued_fold_alloc[of "rt\<lparr>syncQueue := []\<rparr>"]
  by (cases b rule: present.cases)
     (auto simp add: loadQueue_cases heapOk_def queued_def split: if_splits)

lemma offlineData_fold_alloc [simp]: "offlineData (fold alloc as rt) = offlineData rt"
  by (induction as arbitrary: rt) (simp_all add: alloc_def)

lemma offlineData_loadQueue:
  "loadQueue b rt = Some rt' \<Longrightarrow> offlineData rt' = offlineData rt"
  by (cases b rule: present.cases) (auto simp add: loadQueue_cases)


lemma construct_unfold:
  "construct online now st =
      (case loadCache now (getItem st ''safestep_offline_data'')
              \<lparr>isOnline = online, syncQueue = [], offlineData = emptyOfflineData now,
               syncInProgress = False, syncCallbacks = 0,
               heap = (\<lambda>r. blankAction), nextRef = 0, localStorage = st, tasks = [],
               drainCount = 0, dispatchLog = [], remoteLog = [], notified = []\<rparr> of
           None \<Rightarrow> resetOfflineData now
              \<lparr>isOnline = online, syncQueue = [], offlineData = emptyOfflineData now,
               syncInProgress = False, syncCallbacks = 0,
               heap = (\<lambda>r. blankAction), nextRef = 0, localStorage = st, tasks = [],
               drainCount = 0, dispatchLog = [], remoteLog = [], notified = []\<rparr>
         | Some rt1 \<Rightarrow>
             (case loadQueue (getItem st ''safestep_sync_queue'') rt1 of
                None \<Rightarrow> resetOfflineData now rt1
              | Some rt2 \<Rightarrow> rt2))"
  by (simp add: construct_def loadOfflineData_def Let_def)


lemma queued_construct:
  "queued (construct online now st) =
     (if getItem st ''safestep_offline_data'' = Some Garbled
         \<or> getItem st ''safestep_sync_queue'' = Some Garbled then []
      else List.map_filter queuedItem
             (filter validQueueItem (elements (decoded (getItem st ''safestep_sync_queue'')))))"
  unfolding construct_unfold
  by (cases "getItem st ''safestep_offline_data''" rule: present.cases;
      cases "getItem st ''safestep_sync_queue''" rule: present.cases)
     (auto simp add: loadCache_cases loadQueue_cases queued_fold_alloc_fresh queued_empty
        map_filter_simps)













lemma valid_actionJson [simp]: "validQueueItem (actionJson a)"
  by (simp add: validQueueItem_def actionJson_def split: option.splits)

lemma queuedItem_actionJson [simp]: "queuedItem (actionJson a) = Some a"
  by (simp add: actionJson_def split: option.splits)

lemma loaded_actionJson:
  "List.map_filter queuedItem (filter validQueueItem (map actionJson as)) = as"
  and viewed_actionJson: "List.map_filter queuedItem (map actionJson as) = as"
  by (induction as) (simp_all add: map_filter_simps)

lemma queueJson_queued: "queueJson rt = JArr (map actionJson (queued rt))"
  by (simp add: queueJson_def queued_def)

lemma saveOfflineData_accepted:
  assumes "\<And>k v. \<not> refuses (localStorage rt) k v"
  shows "getItem (localStorage (saveOfflineData rt)) ''safestep_sync_queue''
           = Some (Encoded (JArr (map actionJson (queued rt))))
       \<and> getItem (localStorage (saveOfflineData rt)) ''safestep_offline_data''
           = Some (Encoded (offlineJson (offlineData rt)))"
  using assms by (simp add: saveOfflineData_def setItem_def getItem_def queueJson_queued)

lemma localStorage_syncWhenOnline [simp]:
  "localStorage (syncWhenOnline rt) = localStorage rt"
  by (simp add: syncWhenOnline_def split: list.splits)

lemma queued_syncWhenOnline [simp]: "queued (syncWhenOnline rt) = queued rt"
  by (simp add: syncWhenOnline_def queued_def split: list.splits)

text \<open>
  C7. On a store that accepts the writes, \<^verbatim>\<open>queueAction\<close>, for any action type and
  payload, appends an action with \<^verbatim>\<open>retryCount\<close> 0, and when it returns the stored
  queue is the queue in memory; a process started on that store afterwards
  (\<open>construct\<close>) has the same actions in its queue, the new one last, each as it was.
\<close>

theorem queueAction_survives_restart:
  assumes "heapOk rt" and "\<And>k v. \<not> refuses (localStorage rt) k v"
  shows "fst (queueAction ty d now rnd rt) = id' (newAction ty d now rnd)
       \<and> retryCount (newAction ty d now rnd) = 0
       \<and> type' (newAction ty d now rnd) = ty
       \<and> data (newAction ty d now rnd) = d
       \<and> queued (snd (queueAction ty d now rnd rt)) = queued rt @ [newAction ty d now rnd]
       \<and> getItem (localStorage (snd (queueAction ty d now rnd rt))) ''safestep_sync_queue''
           = Some (Encoded (JArr (map actionJson (queued rt @ [newAction ty d now rnd]))))
       \<and> queued (construct online later (localStorage (snd (queueAction ty d now rnd rt))))
           = queued rt @ [newAction ty d now rnd]"
proof -
  let ?a = "newAction ty d now rnd"
  let ?rt1 = "saveOfflineData (alloc ?a rt)"
  have st: "localStorage (snd (queueAction ty d now rnd rt)) = localStorage ?rt1"
    by (simp add: queueAction_def Let_def)
  have q1: "queued ?rt1 = queued rt @ [?a]"
    using assms(1) by (simp add: queued_alloc)
  have q: "queued (snd (queueAction ty d now rnd rt)) = queued rt @ [?a]"
    using q1 by (simp add: queueAction_def Let_def)
  have acc: "\<And>k v. \<not> refuses (localStorage (alloc ?a rt)) k v"
    using assms(2) by (simp add: alloc_def)
  have saved: "getItem (localStorage ?rt1) ''safestep_sync_queue''
                 = Some (Encoded (JArr (map actionJson (queued rt @ [?a]))))"
    and cached: "getItem (localStorage ?rt1) ''safestep_offline_data''
                 = Some (Encoded (offlineJson (offlineData (alloc ?a rt))))"
    using saveOfflineData_accepted[OF acc] assms(1) by (simp_all add: queued_alloc)
  have "queued (construct online later (localStorage ?rt1)) = queued rt @ [?a]"
    unfolding queued_construct saved cached
    by (simp add: loaded_actionJson viewed_actionJson del: map_append filter_append)
  then show ?thesis
    using q saved by (simp add: st) (simp add: queueAction_def newAction_def Let_def)
qed

subsection \<open>The drain as a loop\<close>

lemma resume_more:
  assumes "tasks rt = [t]" and "pending t = r # rs"
  shows "resume remote now 0 rt =
     rt\<lparr>heap := fst (visit remote (current t) (heap rt, successfulSyncs t, remoteLog rt)),
        dispatchLog := dispatchLog rt @ [(drainId t, current t)],
        remoteLog := snd (snd (visit remote (current t) (heap rt, successfulSyncs t, remoteLog rt))),
        tasks := [t\<lparr>current := r, pending := rs,
                    successfulSyncs :=
                      fst (snd (visit remote (current t) (heap rt, successfulSyncs t, remoteLog rt)))\<rparr>]\<rparr>"
  using assms by (simp add: resume_def visit_def Let_def)

lemma resume_last:
  assumes "tasks rt = [t]" and "pending t = []"
  shows "resume remote now 0 rt =
     completeSync now (fst (snd (visit remote (current t) (heap rt, successfulSyncs t, remoteLog rt))))
       (rt\<lparr>heap := fst (visit remote (current t) (heap rt, successfulSyncs t, remoteLog rt)),
           dispatchLog := dispatchLog rt @ [(drainId t, current t)],
           remoteLog := snd (snd (visit remote (current t) (heap rt, successfulSyncs t, remoteLog rt))),
           tasks := []\<rparr>)"
  using assms by (simp add: resume_def visit_def Let_def)

lemma resume_loop:
  assumes "tasks rt = [t]" and "pending t = rs"
  shows "(resume remote now 0 ^^ Suc (length rs)) rt =
     completeSync now (fst (snd (sweep remote t rt)))
       (rt\<lparr>heap := fst (sweep remote t rt),
           dispatchLog := dispatchLog rt @ map (Pair (drainId t)) (current t # pending t),
           remoteLog := snd (snd (sweep remote t rt)),
           tasks := []\<rparr>)"
  using assms
proof (induction rs arbitrary: rt t)
  case Nil
  then show ?case
    by (simp add: resume_last sweep_def)
next
  case (Cons r rs)
  let ?v = "visit remote (current t) (heap rt, successfulSyncs t, remoteLog rt)"
  let ?t = "t\<lparr>current := r, pending := rs, successfulSyncs := fst (snd ?v)\<rparr>"
  let ?rt = "rt\<lparr>heap := fst ?v,
        dispatchLog := dispatchLog rt @ [(drainId t, current t)],
        remoteLog := snd (snd ?v),
        tasks := [?t]\<rparr>"
  have step: "resume remote now 0 rt = ?rt"
    using Cons.prems by (rule resume_more)
  have sw: "sweep remote ?t ?rt = sweep remote t rt"
    using Cons.prems by (simp add: sweep_def)
  have "(resume remote now 0 ^^ Suc (length (r # rs))) rt
          = (resume remote now 0 ^^ Suc (length rs)) ?rt"
    by (simp add: funpow_swap1 step)
  also have "\<dots> = completeSync now (fst (snd (sweep remote ?t ?rt)))
       (?rt\<lparr>heap := fst (sweep remote ?t ?rt),
           dispatchLog := dispatchLog ?rt @ map (Pair (drainId ?t)) (current ?t # pending ?t),
           remoteLog := snd (snd (sweep remote ?t ?rt)),
           tasks := []\<rparr>)"
    by (rule Cons.IH) simp_all
  also have "\<dots> = completeSync now (fst (snd (sweep remote t rt)))
       (rt\<lparr>heap := fst (sweep remote t rt),
           dispatchLog := dispatchLog rt @ map (Pair (drainId t)) (current t # pending t),
           remoteLog := snd (snd (sweep remote t rt)),
           tasks := []\<rparr>)"
    unfolding sw using Cons.prems by simp
  finally show ?case .
qed

lemma deliver_Settles: "deliver (Settles i remote now) = resume remote now i"
  by (rule ext) simp

lemma run_replicate: "run (replicate n e) rt = (deliver e ^^ n) rt"
  by (simp add: run_def fold_replicate)

lemma drain_idle:
  assumes "idle rt" and "isOnline rt" and "syncQueue rt = r # rs"
  shows "drain remote now rt =
     completeSync now (fst (snd (fold (visit remote) (r # rs) (heap rt, [], remoteLog rt))))
       (rt\<lparr>syncInProgress := True, drainCount := Suc (drainCount rt),
           heap := fst (fold (visit remote) (r # rs) (heap rt, [], remoteLog rt)),
           dispatchLog := dispatchLog rt @ map (Pair (drainCount rt)) (r # rs),
           remoteLog := snd (snd (fold (visit remote) (r # rs) (heap rt, [], remoteLog rt))),
           tasks := []\<rparr>)"
proof -
  let ?t = "\<lparr>drainId = drainCount rt, current = r, pending = rs, successfulSyncs = []\<rparr>"
  let ?rt = "rt\<lparr>syncInProgress := True, tasks := [?t], drainCount := Suc (drainCount rt)\<rparr>"
  have start: "syncWhenOnline rt = ?rt"
    using assms by (simp add: syncWhenOnline_def idle_def)
  have "drain remote now rt = (resume remote now 0 ^^ Suc (length rs)) ?rt"
    using assms(3) start
    by (simp add: drain_def run_def fold_replicate deliver_Settles funpow_swap1)
  also have "\<dots> = completeSync now (fst (snd (sweep remote ?t ?rt)))
       (?rt\<lparr>heap := fst (sweep remote ?t ?rt),
           dispatchLog := dispatchLog ?rt @ map (Pair (drainId ?t)) (current ?t # pending ?t),
           remoteLog := snd (snd (sweep remote ?t ?rt)),
           tasks := []\<rparr>)"
    by (rule resume_loop) simp_all
  finally show ?thesis
    by (simp add: sweep_def)
qed

lemma drain_skipped:
  assumes "idle rt" and "\<not> isOnline rt \<or> syncQueue rt = []"
  shows "drain remote now rt = rt"
proof -
  have start: "syncWhenOnline rt = rt"
    using assms by (auto simp add: syncWhenOnline_def)
  have stay: "(resume remote now 0 ^^ n) rt = rt" for n
    using assms(1) by (induction n) (simp_all add: resume_def idle_def)
  show ?thesis
    by (simp add: drain_def run_def deliver_Settles start stay)
qed

lemma fold_visit:
  assumes "distinct q"
  shows "fold (visit remote) q (h, m, ops) =
     ((\<lambda>x. if x \<in> set q \<and> \<not> succeeds remote (h x) then retried (h x) else h x),
      m @ map (\<lambda>x. id' (h x)) (filter (\<lambda>x. settledBy remote (h x)) q),
      ops @ concat (map (\<lambda>x. snd (syncAction remote (h x))) q))"
  using assms
proof (induction q arbitrary: h m ops)
  case Nil
  then show ?case by simp
next
  case (Cons r q)
  have v: "visit remote r (h, m, ops) =
     ((if succeeds remote (h r) then h else h(r := retried (h r))),
      (if settledBy remote (h r) then m @ [id' (h r)] else m),
      ops @ snd (syncAction remote (h r)))"
    by (cases "fst (syncAction remote (h r))")
       (simp_all add: visit_def Let_def failedAttempt_def succeeds_def settledBy_def retried_def)
  let ?h = "if succeeds remote (h r) then h else h(r := retried (h r))"
  have same: "?h x = h x" if "x \<in> set q" for x
    using that Cons.prems by auto
  have f: "filter (\<lambda>x. settledBy remote (?h x)) q = filter (\<lambda>x. settledBy remote (h x)) q"
    by (rule filter_cong) (simp_all add: same)
  have i: "map (\<lambda>x. id' (?h x)) xs = map (\<lambda>x. id' (h x)) xs" if "set xs \<subseteq> set q" for xs
    by (rule map_cong) (use that same in \<open>auto simp add: retried_def\<close>)
  have c: "map (\<lambda>x. snd (syncAction remote (?h x))) q = map (\<lambda>x. snd (syncAction remote (h x))) q"
    by (rule map_cong) (simp_all add: same)
  have hh: "(\<lambda>x. if x \<in> set q \<and> \<not> succeeds remote (?h x) then retried (?h x) else ?h x)
          = (\<lambda>x. if x \<in> set (r # q) \<and> \<not> succeeds remote (h x) then retried (h x) else h x)"
    using Cons.prems by (auto simp add: fun_eq_iff)
  show ?case
    using Cons.prems
    by (simp add: v Cons.IH f i c hh del: fun_upd_apply)
qed

lemma saveOfflineData_storage:
  "saveOfflineData rt = rt\<lparr>localStorage := localStorage (saveOfflineData rt)\<rparr>"
  by (simp add: saveOfflineData_def split: option.splits)

lemma saveOfflineData_fields [simp]:
  "heap (saveOfflineData rt) = heap rt"
  "syncQueue (saveOfflineData rt) = syncQueue rt"
  "tasks (saveOfflineData rt) = tasks rt"
  "isOnline (saveOfflineData rt) = isOnline rt"
  "syncInProgress (saveOfflineData rt) = syncInProgress rt"
  "dispatchLog (saveOfflineData rt) = dispatchLog rt"
  "remoteLog (saveOfflineData rt) = remoteLog rt"
  "drainCount (saveOfflineData rt) = drainCount rt"
  "nextRef (saveOfflineData rt) = nextRef rt"
  "syncCallbacks (saveOfflineData rt) = syncCallbacks rt"
  "notified (saveOfflineData rt) = notified rt"
  by (simp_all add: saveOfflineData_def split: option.splits)

lemma drain_online:
  assumes "idle rt" and "isOnline rt" and "syncQueue rt \<noteq> []"
  shows "drain remote now rt =
     completeSync now (fst (snd (fold (visit remote) (syncQueue rt) (heap rt, [], remoteLog rt))))
       (rt\<lparr>syncInProgress := True, drainCount := Suc (drainCount rt),
           heap := fst (fold (visit remote) (syncQueue rt) (heap rt, [], remoteLog rt)),
           dispatchLog := dispatchLog rt @ map (Pair (drainCount rt)) (syncQueue rt),
           remoteLog := snd (snd (fold (visit remote) (syncQueue rt) (heap rt, [], remoteLog rt))),
           tasks := []\<rparr>)"
proof -
  obtain r rs where q: "syncQueue rt = r # rs"
    using assms(3) by (cases "syncQueue rt") auto
  show ?thesis
    unfolding q by (rule drain_idle[OF assms(1,2) q])
qed

lemma id_retried [simp]: "id' (retried a) = id' a"
  by (simp add: retried_def)

lemma drain_fields:
  assumes "idle rt" and "isOnline rt" and "syncQueue rt \<noteq> []" and "distinct (syncQueue rt)"
  shows "heap (drain remote now rt) =
           (\<lambda>x. if x \<in> set (syncQueue rt) \<and> \<not> succeeds remote (heap rt x)
                then retried (heap rt x) else heap rt x)"
    and "syncQueue (drain remote now rt) =
           filter (\<lambda>x. id' (heap rt x) \<notin>
                    set (map (\<lambda>y. id' (heap rt y))
                           (filter (\<lambda>y. settledBy remote (heap rt y)) (syncQueue rt))))
             (syncQueue rt)"
    and "dispatchLog (drain remote now rt) =
           dispatchLog rt @ map (Pair (drainCount rt)) (syncQueue rt)"
    and "remoteLog (drain remote now rt) =
           remoteLog rt @ concat (map (\<lambda>x. snd (syncAction remote (heap rt x))) (syncQueue rt))"
    and "idle (drain remote now rt)"
    and "isOnline (drain remote now rt)"
    and "drainCount (drain remote now rt) = Suc (drainCount rt)"
    and "nextRef (drain remote now rt) = nextRef rt"
proof -
  note eq = drain_online[OF assms(1,2,3), of remote now, unfolded fold_visit[OF assms(4)]]
  show "heap (drain remote now rt) =
           (\<lambda>x. if x \<in> set (syncQueue rt) \<and> \<not> succeeds remote (heap rt x)
                then retried (heap rt x) else heap rt x)"
    unfolding eq by (simp add: completeSync_def)
  have "syncQueue (drain remote now rt) =
           filter (\<lambda>x. id' (if x \<in> set (syncQueue rt) \<and> \<not> succeeds remote (heap rt x)
                then retried (heap rt x) else heap rt x) \<notin>
                    set (map (\<lambda>y. id' (heap rt y))
                           (filter (\<lambda>y. settledBy remote (heap rt y)) (syncQueue rt))))
             (syncQueue rt)"
    unfolding eq by (simp add: completeSync_def)
  also have "\<dots> = filter (\<lambda>x. id' (heap rt x) \<notin>
                    set (map (\<lambda>y. id' (heap rt y))
                           (filter (\<lambda>y. settledBy remote (heap rt y)) (syncQueue rt))))
             (syncQueue rt)"
    by (rule filter_cong) (simp_all del: set_map set_filter)
  finally show "syncQueue (drain remote now rt) =
           filter (\<lambda>x. id' (heap rt x) \<notin>
                    set (map (\<lambda>y. id' (heap rt y))
                           (filter (\<lambda>y. settledBy remote (heap rt y)) (syncQueue rt))))
             (syncQueue rt)" .
  show "dispatchLog (drain remote now rt) =
           dispatchLog rt @ map (Pair (drainCount rt)) (syncQueue rt)"
    unfolding eq by (simp add: completeSync_def)
  show "remoteLog (drain remote now rt) =
           remoteLog rt @ concat (map (\<lambda>x. snd (syncAction remote (heap rt x))) (syncQueue rt))"
    unfolding eq by (simp add: completeSync_def)
  show "idle (drain remote now rt)"
    unfolding eq by (simp add: completeSync_def idle_def)
  show "isOnline (drain remote now rt)"
    unfolding eq using assms(2) by (simp add: completeSync_def)
  show "drainCount (drain remote now rt) = Suc (drainCount rt)"
    unfolding eq by (simp add: completeSync_def)
  show "nextRef (drain remote now rt) = nextRef rt"
    unfolding eq by (simp add: completeSync_def)
qed

lemma succeeds_retried [simp]: "succeeds remote (retried a) = succeeds remote a"
  by (simp add: succeeds_def retried_def syncAction_def)

subsection \<open>The retry budget\<close>

lemma drain_failing:
  assumes "idle rt" and "isOnline rt" and "distinct (syncQueue rt)"
    and "r \<in> set (syncQueue rt)" and "soleId r rt"
    and "\<not> succeeds remote (heap rt r)"
  shows "heap (drain remote now rt) r = retried (heap rt r)"
    and "(r \<in> set (syncQueue (drain remote now rt))) = (retryCount (heap rt r) + 1 < maxRetries)"
    and "idle (drain remote now rt)" and "isOnline (drain remote now rt)"
    and "distinct (syncQueue (drain remote now rt))"
    and "soleId r (drain remote now rt)"
    and "attempts r (drain remote now rt) = Suc (attempts r rt)"
proof -
  have ne: "syncQueue rt \<noteq> []"
    using assms(4) by auto
  note f = drain_fields[OF assms(1,2) ne assms(3), of remote now]
  show "heap (drain remote now rt) r = retried (heap rt r)"
    using assms(4,6) by (simp add: f(1))
  show "(r \<in> set (syncQueue (drain remote now rt))) = (retryCount (heap rt r) + 1 < maxRetries)"
    using assms(4,5,6) by (auto simp add: f(2) soleId_def settledBy_def)
  show "idle (drain remote now rt)" by (rule f(5))
  show "isOnline (drain remote now rt)" by (rule f(6))
  show "distinct (syncQueue (drain remote now rt))"
    using assms(3) by (simp add: f(2))
  show "soleId r (drain remote now rt)"
    using assms(5) by (auto simp add: f(1,2) soleId_def)
  show "attempts r (drain remote now rt) = Suc (attempts r rt)"
    using assms(3,4)
    by (simp add: attempts_def f(3) filter_map comp_def)
       (simp add: distinct_length_filter[of "syncQueue rt"] flip: length_filter_conv_card)
qed

lemma drains_failing:
  assumes "idle rt" and "isOnline rt" and "distinct (syncQueue rt)"
    and "r \<in> set (syncQueue rt)" and "soleId r rt"
    and "\<forall>p \<in> set ps. \<not> succeeds (fst p) (heap rt r)"
    and "retryCount (heap rt r) + int (length ps) \<le> maxRetries"
    and "retryCount (heap rt r) < maxRetries"
  shows "(r \<in> set (syncQueue (drains ps rt)))
           = (retryCount (heap rt r) + int (length ps) < maxRetries)
       \<and> retryCount (heap (drains ps rt) r) = retryCount (heap rt r) + int (length ps)
       \<and> attempts r (drains ps rt) = attempts r rt + length ps"
  using assms
proof (induction ps arbitrary: rt)
  case Nil
  then show ?case
    by (simp add: drains_def)
next
  case (Cons p ps)
  let ?rt = "drain (fst p) (snd p) rt"
  have fails: "\<not> succeeds (fst p) (heap rt r)"
    using Cons.prems(6) by simp
  note d = drain_failing[OF Cons.prems(1-5) fails, of "snd p"]
  have k: "retryCount (heap ?rt r) = retryCount (heap rt r) + 1"
    by (simp add: d(1) retried_def)
  show ?case
  proof (cases ps)
    case Nil
    then show ?thesis
      using d(2) d(7) k by (simp add: drains_def)
  next
    case (Cons p' ps')
    then have less: "retryCount (heap rt r) + 1 < maxRetries"
      using Cons.prems(7) by simp
    then have mem: "r \<in> set (syncQueue ?rt)"
      by (simp add: d(2))
    have less': "retryCount (heap ?rt r) < maxRetries"
      using less by (simp add: k)
    have still: "\<forall>p \<in> set ps. \<not> succeeds (fst p) (heap ?rt r)"
      using Cons.prems(6) by (simp add: d(1))
    have budget: "retryCount (heap ?rt r) + int (length ps) \<le> maxRetries"
      using Cons.prems(7) by (simp add: k)
    have "(r \<in> set (syncQueue (drains ps ?rt)))
           = (retryCount (heap ?rt r) + int (length ps) < maxRetries)
       \<and> retryCount (heap (drains ps ?rt) r) = retryCount (heap ?rt r) + int (length ps)
       \<and> attempts r (drains ps ?rt) = attempts r ?rt + length ps"
      by (rule Cons.IH[OF d(3) d(4) d(5) mem d(6) still budget less'])
    then show ?thesis
      by (simp add: drains_def k d(7) add.assoc)
  qed
qed

lemma drain_absent:
  assumes "idle rt" and "isOnline rt" and "distinct (syncQueue rt)"
    and "r \<notin> set (syncQueue rt)"
  shows "r \<notin> set (syncQueue (drain remote now rt))"
    and "attempts r (drain remote now rt) = attempts r rt"
    and "idle (drain remote now rt)" and "isOnline (drain remote now rt)"
    and "distinct (syncQueue (drain remote now rt))"
    and "heap (drain remote now rt) r = heap rt r"
proof -
  have "r \<notin> set (syncQueue (drain remote now rt))
      \<and> attempts r (drain remote now rt) = attempts r rt
      \<and> heap (drain remote now rt) r = heap rt r
      \<and> idle (drain remote now rt) \<and> isOnline (drain remote now rt)
      \<and> distinct (syncQueue (drain remote now rt))"
  proof (cases "syncQueue rt = []")
    case True
    then have "drain remote now rt = rt"
      using assms(1) by (simp add: drain_skipped)
    then show ?thesis
      using assms by simp
  next
    case False
    note f = drain_fields[OF assms(1,2) False assms(3), of remote now]
    have "filter (\<lambda>e. snd e = r) (map (Pair (drainCount rt)) (syncQueue rt)) = []"
      using assms(4) by (auto simp add: filter_empty_conv)
    then show ?thesis
      using assms(3,4) by (simp add: f attempts_def)
  qed
  then show "r \<notin> set (syncQueue (drain remote now rt))"
    and "attempts r (drain remote now rt) = attempts r rt"
    and "idle (drain remote now rt)" and "isOnline (drain remote now rt)"
    and "distinct (syncQueue (drain remote now rt))"
    and "heap (drain remote now rt) r = heap rt r"
    by simp_all
qed

lemma drains_absent:
  assumes "idle rt" and "isOnline rt" and "distinct (syncQueue rt)"
    and "r \<notin> set (syncQueue rt)"
  shows "r \<notin> set (syncQueue (drains ps rt)) \<and> attempts r (drains ps rt) = attempts r rt
       \<and> heap (drains ps rt) r = heap rt r"
  using assms
proof (induction ps arbitrary: rt)
  case Nil
  then show ?case by (simp add: drains_def)
next
  case (Cons p ps)
  note d = drain_absent[OF Cons.prems, of "fst p" "snd p"]
  show ?case
    using Cons.IH[OF d(3) d(4) d(5) d(1)] by (simp add: drains_def d(2) d(6))
qed

lemma drains_append: "drains (ps @ qs) rt = drains qs (drains ps rt)"
  by (simp add: drains_def)

lemma drains_idle:
  assumes "idle rt" and "isOnline rt" and "distinct (syncQueue rt)"
  shows "idle (drains ps rt) \<and> isOnline (drains ps rt) \<and> distinct (syncQueue (drains ps rt))"
  using assms
proof (induction ps arbitrary: rt)
  case Nil
  then show ?case by (simp add: drains_def)
next
  case (Cons p ps)
  have "idle (drain (fst p) (snd p) rt) \<and> isOnline (drain (fst p) (snd p) rt)
      \<and> distinct (syncQueue (drain (fst p) (snd p) rt))"
  proof (cases "syncQueue rt = []")
    case True
    then show ?thesis
      using Cons.prems by (simp add: drain_skipped)
  next
    case False
    note f = drain_fields[OF Cons.prems(1,2) False Cons.prems(3), of "fst p" "snd p"]
    show ?thesis
      using Cons.prems(3) by (simp add: f)
  qed
  then show ?case
    using Cons.IH by (simp add: drains_def)
qed

text \<open>
  C1. Take an action in the queue of an idle, online manager, with \<^verbatim>\<open>retryCount\<close> 0 and
  an id no other queued action has, whose dispatch fails in every one of the drains
  \<open>ps\<close> (the other actions may fare as they will). It is in the queue after the drains
  exactly when there were fewer than \<^verbatim>\<open>maxRetries\<close> = 3 of them; it has been dispatched
  once in each of the first three drains and in none after; and its \<^verbatim>\<open>retryCount\<close> is
  the number of those failed attempts. So the third failed attempt removes it, no earlier
  one does, and there is no fourth.
\<close>

theorem retry_budget:
  assumes "idle rt" and "isOnline rt" and "distinct (syncQueue rt)"
    and "r \<in> set (syncQueue rt)" and "soleId r rt"
    and "\<forall>p \<in> set ps. \<not> succeeds (fst p) (heap rt r)"
    and "retryCount (heap rt r) = 0"
  shows "(r \<in> set (syncQueue (drains ps rt))) = (int (length ps) < maxRetries)
       \<and> attempts r (drains ps rt) = attempts r rt + min (length ps) (nat maxRetries)
       \<and> retryCount (heap (drains ps rt) r) = min (int (length ps)) maxRetries
       \<and> maxRetries = 3"
proof (cases "int (length ps) \<le> maxRetries")
  case True
  have "\<forall>p\<in>set ps. \<not> succeeds (fst p) (heap rt r)"
    using assms(6) .
  moreover have "retryCount (heap rt r) + int (length ps) \<le> maxRetries"
    using True assms(7) by simp
  moreover have "retryCount (heap rt r) < maxRetries"
    using assms(7) by (simp add: maxRetries_def)
  ultimately show ?thesis
    using drains_failing[OF assms(1-5), of ps] True assms(7)
    by (simp add: maxRetries_def min_def)
next
  case False
  define xs where "xs = take 3 ps"
  define ys where "ys = drop 3 ps"
  have ps: "ps = xs @ ys" and lx: "length xs = 3"
    using False by (simp_all add: xs_def ys_def maxRetries_def)
  have "\<forall>p\<in>set xs. \<not> succeeds (fst p) (heap rt r)"
    using assms(6) by (simp add: ps)
  moreover have "retryCount (heap rt r) + int (length xs) \<le> maxRetries"
    using assms(7) lx by (simp add: maxRetries_def)
  moreover have "retryCount (heap rt r) < maxRetries"
    using assms(7) by (simp add: maxRetries_def)
  ultimately have x: "r \<notin> set (syncQueue (drains xs rt))"
    "attempts r (drains xs rt) = attempts r rt + 3"
    "retryCount (heap (drains xs rt) r) = 3"
    using drains_failing[OF assms(1-5), of xs] assms(7) lx
    by (simp_all add: maxRetries_def)
  note i = drains_idle[OF assms(1-3), of xs]
  have "r \<notin> set (syncQueue (drains ys (drains xs rt)))
      \<and> attempts r (drains ys (drains xs rt)) = attempts r (drains xs rt)
      \<and> heap (drains ys (drains xs rt)) r = heap (drains xs rt) r"
    by (rule drains_absent) (use i x(1) in simp_all)
  then show ?thesis
    using False x(2,3) lx by (simp add: ps drains_append maxRetries_def)
qed

lemmas load_defs = construct_def loadOfflineData_def getItem_def loadCache_def loadQueue_def
  validQueueItem_def map_filter_simps alloc_def

lemma emptyStorage_fields:
  "syncQueue (construct online now emptyStorage) = []"
  "tasks (construct online now emptyStorage) = []"
  "syncInProgress (construct online now emptyStorage) = False"
  "isOnline (construct online now emptyStorage) = online"
  "nextRef (construct online now emptyStorage) = 0"
  "drainCount (construct online now emptyStorage) = 0"
  "dispatchLog (construct online now emptyStorage) = []"
  "remoteLog (construct online now emptyStorage) = []"
  "localStorage (construct online now emptyStorage) = emptyStorage"
  by (simp_all add: emptyStorage_def load_defs)

lemma poisoned_fields:
  "syncQueue poisoned = [0]"
  "heap poisoned 0 = \<lparr>id' = ''message_1_x'', type' = ''message'', data = None,
                        timestamp = 1, retryCount = 0\<rparr>"
  "tasks poisoned = []" "\<not> syncInProgress poisoned" "isOnline poisoned"
  "dispatchLog poisoned = []"
  by (simp_all add: poisoned_def poisonedStorage_def load_defs)

theorem retry_budget_witness:
  "0 \<in> set (syncQueue (drains [(always, 1), (always, 2)] poisoned))
   \<and> attempts 0 (drains [(always, 1), (always, 2)] poisoned) = 2
   \<and> 0 \<notin> set (syncQueue (drains [(always, 1), (always, 2), (always, 3)] poisoned))
   \<and> attempts 0 (drains [(always, 1), (always, 2), (always, 3)] poisoned) = 3
   \<and> attempts 0 (drains [(always, 1), (always, 2), (always, 3), (always, 4)] poisoned) = 3"
proof -
  have f: "\<not> succeeds always (heap poisoned 0)"
    by (simp add: poisoned_fields succeeds_def syncAction_def readable_def)
  have h: "idle poisoned" "isOnline poisoned" "distinct (syncQueue poisoned)"
    "0 \<in> set (syncQueue poisoned)" "soleId 0 poisoned" "retryCount (heap poisoned 0) = 0"
    "attempts 0 poisoned = 0"
    by (simp_all add: poisoned_fields idle_def soleId_def attempts_def)
  show ?thesis
    using retry_budget[OF h(1-5) _ h(6), of "[(always, 1), (always, 2)]"]
      retry_budget[OF h(1-5) _ h(6), of "[(always, 1), (always, 2), (always, 3)]"]
      retry_budget[OF h(1-5) _ h(6), of "[(always, 1), (always, 2), (always, 3), (always, 4)]"]
      f h(7)
    by (simp add: maxRetries_def)
qed

subsection \<open>The drain after reconnecting\<close>

lemma succeeds_always: "succeeds (\<lambda>op. True) a = dispatchable a"
  by (auto simp add: succeeds_def syncAction_def dispatchable_def Let_def split: option.splits)

lemma fold_visit_succeeding:
  assumes "\<forall>x \<in> set q. succeeds remote (h x)"
  shows "fold (visit remote) q (h, m, ops) =
     (h, m @ map (\<lambda>x. id' (h x)) q, ops @ concat (map (\<lambda>x. snd (syncAction remote (h x))) q))"
  using assms
proof (induction q arbitrary: m ops)
  case Nil
  then show ?case by simp
next
  case (Cons r q)
  have "visit remote r (h, m, ops) = (h, m @ [id' (h r)], ops @ snd (syncAction remote (h r)))"
    using Cons.prems by (simp add: visit_def Let_def succeeds_def)
  then show ?case
    using Cons by simp
qed

lemma onOnline_unfold:
  "onOnline rt = syncWhenOnline (rt\<lparr>isOnline := True, notified := notified rt @ replicate (syncCallbacks rt) True\<rparr>)"
  by (simp add: onOnline_def notifyCallbacks_def)

text \<open>
  C9, as the code has it. A manager with no drain in flight is offline with actions in
  its queue, each of them dispatchable: an SOS, or a location, message or status with a
  payload the dispatcher can read. The \<^verbatim>\<open>online\<close> event sets the manager online and starts
  a drain. Once the drain's dispatches have settled against a remote that accepts every
  request, the queue is empty, \<^verbatim>\<open>getSyncStatus\<close> reports 0 queued actions, no drain is in
  flight, the actions of the queue have been dispatched, each once, in queue order, and
  the remote has received the writes of each, in that order.
\<close>

theorem online_transition_drains:
  assumes "idle rt" and "\<not> isOnline rt" and "syncQueue rt \<noteq> []"
    and "\<forall>r \<in> set (syncQueue rt). dispatchable (heap rt r)"
  shows "isOnline (deliver Online rt)
       \<and> length (tasks (deliver Online rt)) = 1
       \<and> syncInProgress (deliver Online rt)
       \<and> syncQueue (run (Online # replicate (length (syncQueue rt)) (Settles 0 (\<lambda>op. True) now)) rt) = []
       \<and> queuedActions (getSyncStatus
            (run (Online # replicate (length (syncQueue rt)) (Settles 0 (\<lambda>op. True) now)) rt)) = 0
       \<and> idle (run (Online # replicate (length (syncQueue rt)) (Settles 0 (\<lambda>op. True) now)) rt)
       \<and> map snd (dispatchLog (run (Online # replicate (length (syncQueue rt)) (Settles 0 (\<lambda>op. True) now)) rt))
           = map snd (dispatchLog rt) @ syncQueue rt
       \<and> remoteLog (run (Online # replicate (length (syncQueue rt)) (Settles 0 (\<lambda>op. True) now)) rt)
           = remoteLog rt
             @ concat (map (\<lambda>r. snd (syncAction (\<lambda>op. True) (heap rt r))) (syncQueue rt))"
proof -
  let ?rt = "rt\<lparr>isOnline := True, notified := notified rt @ replicate (syncCallbacks rt) True\<rparr>"
  let ?es = "replicate (length (syncQueue rt)) (Settles 0 (\<lambda>op. True) now)"
  have i: "idle ?rt" and o: "isOnline ?rt" and q: "syncQueue ?rt \<noteq> []"
    using assms by (simp_all add: idle_def)
  have started: "isOnline (deliver Online rt) \<and> length (tasks (deliver Online rt)) = 1
      \<and> syncInProgress (deliver Online rt)"
    using assms(1,3)
    by (cases "syncQueue rt") (simp_all add: onOnline_unfold syncWhenOnline_def idle_def)
  have "run (Online # ?es) rt = drain (\<lambda>op. True) now ?rt"
    by (simp add: run_def drain_def onOnline_unfold)
  also have "\<dots> =
     completeSync now (fst (snd (fold (visit (\<lambda>op. True)) (syncQueue ?rt) (heap ?rt, [], remoteLog ?rt))))
       (?rt\<lparr>syncInProgress := True, drainCount := Suc (drainCount ?rt),
           heap := fst (fold (visit (\<lambda>op. True)) (syncQueue ?rt) (heap ?rt, [], remoteLog ?rt)),
           dispatchLog := dispatchLog ?rt @ map (Pair (drainCount ?rt)) (syncQueue ?rt),
           remoteLog := snd (snd (fold (visit (\<lambda>op. True)) (syncQueue ?rt) (heap ?rt, [], remoteLog ?rt))),
           tasks := []\<rparr>)"
    by (rule drain_online[OF i o q])
  finally have eq: "run (Online # ?es) rt =
     completeSync now (map (\<lambda>x. id' (heap rt x)) (syncQueue rt))
       (rt\<lparr>isOnline := True, notified := notified rt @ replicate (syncCallbacks rt) True,
           syncInProgress := True, drainCount := Suc (drainCount rt),
           dispatchLog := dispatchLog rt @ map (Pair (drainCount rt)) (syncQueue rt),
           remoteLog := remoteLog rt @ concat (map (\<lambda>x. snd (syncAction (\<lambda>op. True) (heap rt x))) (syncQueue rt)),
           tasks := []\<rparr>)"
    using assms(4) by (simp add: fold_visit_succeeding succeeds_always)
  have emptied: "filter (\<lambda>r. id' (heap rt r) \<notin> set (map (\<lambda>x. id' (heap rt x)) (syncQueue rt))) (syncQueue rt) = []"
    by (auto simp add: filter_empty_conv)
  show ?thesis
    unfolding eq using started emptied
    by (simp add: completeSync_def getSyncStatus_def idle_def comp_def del: set_map)
qed

lemma backlog_fields:
  "syncQueue backlog = [0, 1, 2]"
  "type' (heap backlog 0) = ''sos''"
  "type' (heap backlog (Suc 0)) = ''status''"
  "type' (heap backlog 2) = ''message''"
  "data (heap backlog (Suc 0)) = Some (JObj [(''childCode'', JStr ''kid''), (''status'', JStr ''online'')])"
  "data (heap backlog 2) = Some (JObj [(''childCode'', JStr ''kid''), (''message'', JStr ''hello'')])"
  "tasks backlog = []" "\<not> syncInProgress backlog" "\<not> isOnline backlog"
  "data (heap backlog 0) = Some (JObj [(''childCode'', JStr ''kid'')])"
  "remoteLog backlog = []"
  by (simp_all add: backlog_def backlogStorage_def load_defs)

theorem online_transition_drains_witness:
  "length (tasks (deliver Online backlog)) = 1
   \<and> syncQueue (run (Online # replicate 3 (Settles 0 (\<lambda>op. True) 9)) backlog) = []
   \<and> queuedActions (getSyncStatus (run (Online # replicate 3 (Settles 0 (\<lambda>op. True) 9)) backlog)) = 0
   \<and> remoteLog (run (Online # replicate 3 (Settles 0 (\<lambda>op. True) 9)) backlog)
       = [Push ''sosAlerts'' (Some (JObj [(''childCode'', JStr ''kid'')])),
          Set ''children/kid/status'' (Some (JStr ''online'')),
          Push ''chats/kid/messages'' (Some (JStr ''hello''))]"
proof -
  have h: "idle backlog" "\<not> isOnline backlog" "syncQueue backlog \<noteq> []"
    "\<forall>r \<in> set (syncQueue backlog). dispatchable (heap backlog r)"
    by (simp_all add: backlog_fields idle_def dispatchable_def readable_def)
  have l: "length (syncQueue backlog) = 3"
    by (simp add: backlog_fields)
  show ?thesis
    using online_transition_drains[OF h, of 9] unfolding l
    by (simp add: backlog_fields syncAction_def readable_def template_def)
qed

lemma interrupted_fields:
  "\<not> isOnline interrupted"
  "syncInProgress interrupted"
  "syncQueue interrupted = [0, 1]"
  "tasks interrupted = [\<lparr>drainId = 0, current = 0, pending = [], successfulSyncs = []\<rparr>]"
  "heap interrupted 0
     = \<lparr>id' = ''sos_5_a'', type' = ''sos'', data = sosPayload, timestamp = 5, retryCount = 0\<rparr>"
  "heap interrupted (Suc 0)
     = \<lparr>id' = ''sos_6_b'', type' = ''sos'', data = sosPayload, timestamp = 6, retryCount = 0\<rparr>"
  "drainCount interrupted = 1"
  by (simp_all add: interrupted_def run_def queueAction_def Let_def alloc_def syncWhenOnline_def
      onOffline_def notifyCallbacks_def newAction_def decimal_def digits.simps digit_def
      emptyStorage_fields)

lemma unreadable_fields:
  "syncQueue unreadable = [0]"
  "heap unreadable 0 = \<lparr>id' = ''message_1_x'', type' = ''message'', data = None,
                          timestamp = 1, retryCount = 0\<rparr>"
  "tasks unreadable = []" "\<not> syncInProgress unreadable" "\<not> isOnline unreadable"
  by (simp_all add: unreadable_def poisonedStorage_def load_defs)

text \<open>
  C9 as stated fails. The manager \<open>interrupted\<close> is offline with two SOS actions in its
  queue, and a drain that began before the connection was lost is still waiting for its
  dispatch, with only the first action before it. The \<^verbatim>\<open>online\<close> event returns at the
  guard of \<^verbatim>\<open>syncWhenOnline\<close> and starts no drain; after the dispatches have settled
  against a remote that accepts every request the second action is still queued and
  \<^verbatim>\<open>getSyncStatus\<close> reports 1, with no drain in flight. It fails too for an action the
  dispatcher cannot read: \<open>unreadable\<close> is offline and idle with one message without
  payload; the drain that the \<^verbatim>\<open>online\<close> event starts makes no request of the remote
  for it and leaves it queued.
\<close>

theorem online_during_drain_leaves_action:
  "\<not> isOnline interrupted
   \<and> syncQueue interrupted = [0, 1]
   \<and> dispatchable (heap interrupted 0) \<and> dispatchable (heap interrupted 1)
   \<and> isOnline (deliver Online interrupted)
   \<and> tasks (deliver Online interrupted) = tasks interrupted
   \<and> drainCount (deliver Online interrupted) = drainCount interrupted
   \<and> syncQueue (run (Online # replicate 2 (Settles 0 always 9)) interrupted) = [1]
   \<and> queuedActions (getSyncStatus (run (Online # replicate 2 (Settles 0 always 9)) interrupted)) = 1
   \<and> tasks (run (Online # replicate 2 (Settles 0 always 9)) interrupted) = []
   \<and> \<not> isOnline unreadable \<and> syncQueue unreadable = [0] \<and> tasks unreadable = []
   \<and> length (tasks (deliver Online unreadable)) = 1
   \<and> syncQueue (run [Online, Settles 0 always 9] unreadable) = [0]
   \<and> queuedActions (getSyncStatus (run [Online, Settles 0 always 9] unreadable)) = 1
   \<and> remoteLog (run [Online, Settles 0 always 9] unreadable) = remoteLog unreadable
   \<and> tasks (run [Online, Settles 0 always 9] unreadable) = []"
  by (simp add: interrupted_fields unreadable_fields dispatchable_def run_def onOnline_unfold
      syncWhenOnline_def resume_def visit_def syncAction_def readable_def always_def
      completeSync_def getSyncStatus_def sosPayload_def maxRetries_def Let_def
      failedAttempt_def numeral_2_eq_2)

subsection \<open>Dispatch order\<close>

lemma enqueue_offline:
  assumes "\<not> isOnline rt"
  shows "deliver (QueueAction ty d now rnd) rt = saveOfflineData (alloc (newAction ty d now rnd) rt)"
  using assms by (simp add: queueAction_def Let_def alloc_def)

lemma enqueue_offline_fields:
  assumes "\<not> isOnline rt" and "idle rt" and "heapOk rt"
  shows "\<not> isOnline (deliver (QueueAction ty d now rnd) rt)"
    and "idle (deliver (QueueAction ty d now rnd) rt)"
    and "heapOk (deliver (QueueAction ty d now rnd) rt)"
    and "syncQueue (deliver (QueueAction ty d now rnd) rt) = syncQueue rt @ [nextRef rt]"
    and "nextRef (deliver (QueueAction ty d now rnd) rt) = Suc (nextRef rt)"
    and "heap (deliver (QueueAction ty d now rnd) rt) = (heap rt)(nextRef rt := newAction ty d now rnd)"
    and "dispatchLog (deliver (QueueAction ty d now rnd) rt) = dispatchLog rt"
    and "remoteLog (deliver (QueueAction ty d now rnd) rt) = remoteLog rt"
    and "drainCount (deliver (QueueAction ty d now rnd) rt) = drainCount rt"
  unfolding enqueue_offline[OF assms(1)]
  using assms by (simp_all add: alloc_def idle_def heapOk_def list_all_iff less_Suc_eq)

text \<open>
  C5. Three calls of \<^verbatim>\<open>queueAction\<close> on an idle, offline manager with an empty queue,
  of any types and payloads, leave the three new actions in the queue in the order of
  the calls. The drain that the \<^verbatim>\<open>online\<close> event then starts dispatches the three
  objects in that order, against any remote, and the writes the remote accepts are
  those of the first action, then those of the second, then those of the third.
\<close>

theorem fifo_dispatch:
  assumes "idle rt" and "heapOk rt" and "\<not> isOnline rt" and "syncQueue rt = []"
  shows "queued (run [QueueAction tA dA nA sA, QueueAction tB dB nB sB, QueueAction tC dC nC sC] rt)
           = [newAction tA dA nA sA, newAction tB dB nB sB, newAction tC dC nC sC]
       \<and> syncQueue (run [QueueAction tA dA nA sA, QueueAction tB dB nB sB, QueueAction tC dC nC sC] rt)
           = [nextRef rt, nextRef rt + 1, nextRef rt + 2]
       \<and> map snd (dispatchLog
            (run ([QueueAction tA dA nA sA, QueueAction tB dB nB sB, QueueAction tC dC nC sC]
                  @ Online # replicate 3 (Settles 0 remote now)) rt))
           = map snd (dispatchLog rt) @ [nextRef rt, nextRef rt + 1, nextRef rt + 2]
       \<and> remoteLog
            (run ([QueueAction tA dA nA sA, QueueAction tB dB nB sB, QueueAction tC dC nC sC]
                  @ Online # replicate 3 (Settles 0 remote now)) rt)
           = remoteLog rt @ snd (syncAction remote (newAction tA dA nA sA))
               @ snd (syncAction remote (newAction tB dB nB sB))
               @ snd (syncAction remote (newAction tC dC nC sC))"
proof -
  let ?n = "nextRef rt"
  let ?A = "newAction tA dA nA sA" and ?B = "newAction tB dB nB sB" and ?C = "newAction tC dC nC sC"
  let ?rt1 = "deliver (QueueAction tA dA nA sA) rt"
  let ?rt2 = "deliver (QueueAction tB dB nB sB) ?rt1"
  let ?rt3 = "deliver (QueueAction tC dC nC sC) ?rt2"
  note a = enqueue_offline_fields[OF assms(3,1,2), of tA dA nA sA]
  note b = enqueue_offline_fields[OF a(1,2,3), of tB dB nB sB]
  note c = enqueue_offline_fields[OF b(1,2,3), of tC dC nC sC]
  have r3: "run [QueueAction tA dA nA sA, QueueAction tB dB nB sB, QueueAction tC dC nC sC] rt = ?rt3"
    by (simp add: run_def)
  have q3: "syncQueue ?rt3 = [?n, ?n + 1, ?n + 2]"
    by (simp add: c(4) b(4) b(5) a(4) a(5) assms(4) del: deliver.simps)
  have h3: "heap ?rt3 ?n = ?A" "heap ?rt3 (Suc ?n) = ?B" "heap ?rt3 (Suc (Suc ?n)) = ?C"
    by (simp_all add: c(6) b(6) b(5) a(6) a(5) del: deliver.simps)
  let ?on = "?rt3\<lparr>isOnline := True, notified := notified ?rt3 @ replicate (syncCallbacks ?rt3) True\<rparr>"
  have i: "idle ?on" and o: "isOnline ?on" and ne: "syncQueue ?on \<noteq> []"
    and di: "distinct (syncQueue ?on)"
    using c(2) q3 by (simp_all add: idle_def del: deliver.simps)
  have "run ([QueueAction tA dA nA sA, QueueAction tB dB nB sB, QueueAction tC dC nC sC]
             @ Online # replicate 3 (Settles 0 remote now)) rt
        = run (SyncWhenOnline # replicate (length (syncQueue ?on)) (Settles 0 remote now)) ?on"
    by (simp add: run_def onOnline_unfold q3 del: deliver.simps(6)) (simp add: numeral_3_eq_3)
  then have fin: "run ([QueueAction tA dA nA sA, QueueAction tB dB nB sB, QueueAction tC dC nC sC]
             @ Online # replicate 3 (Settles 0 remote now)) rt = drain remote now ?on"
    by (simp add: drain_def)
  note f = drain_fields[OF i o ne di, of remote now]
  show ?thesis
    unfolding fin r3
    by (simp add: f(3) f(4) queued_def q3 h3 c(7) b(7) a(7) c(8) b(8) a(8) comp_def
        del: deliver.simps)
qed

theorem fifo_dispatch_witness:
  "map snd (dispatchLog
      (run ([QueueAction ''message'' (kidPayload ''message'' (JStr ''hello'')) 5 ''a'',
             QueueAction ''location'' (kidPayload ''lastLocation'' (JNum 7)) 6 ''b'',
             QueueAction ''sos'' (kidPayload ''status'' (JStr ''active'')) 7 ''c'']
            @ Online # replicate 3 (Settles 0 always 9)) (construct False 0 emptyStorage)))
     = [0, 1, 2]
   \<and> remoteLog
      (run ([QueueAction ''message'' (kidPayload ''message'' (JStr ''hello'')) 5 ''a'',
             QueueAction ''location'' (kidPayload ''lastLocation'' (JNum 7)) 6 ''b'',
             QueueAction ''sos'' (kidPayload ''status'' (JStr ''active'')) 7 ''c'']
            @ Online # replicate 3 (Settles 0 always 9)) (construct False 0 emptyStorage))
     = [Push ''chats/kid/messages'' (Some (JStr ''hello'')),
        Set ''children/kid'' (kidPayload ''lastLocation'' (JNum 7)),
        Push ''children/kid/locationHistory'' (Some (JNum 7)),
        Push ''sosAlerts'' (kidPayload ''status'' (JStr ''active''))]"
proof -
  have h: "idle (construct False 0 emptyStorage)" "heapOk (construct False 0 emptyStorage)"
    "\<not> isOnline (construct False 0 emptyStorage)" "syncQueue (construct False 0 emptyStorage) = []"
    by (simp_all add: emptyStorage_fields idle_def heapOk_def)
  show ?thesis
    using fifo_dispatch[OF h, of "''message''" "kidPayload ''message'' (JStr ''hello'')" 5 "''a''"
        "''location''" "kidPayload ''lastLocation'' (JNum 7)" 6 "''b''"
        "''sos''" "kidPayload ''status'' (JStr ''active'')" 7 "''c''" always 9]
    by (simp add: emptyStorage_fields syncAction_def newAction_def kidPayload_def always_def
        readable_def template_def Let_def)
qed

subsection \<open>Single flight\<close>

lemma wellFormed_saveOfflineData [simp]: "wellFormed (saveOfflineData rt) = wellFormed rt"
  by (simp add: wellFormed_def)

lemma wellFormed_syncWhenOnline:
  assumes "wellFormed rt"
  shows "wellFormed (syncWhenOnline rt)"
proof (cases "\<not> isOnline rt \<or> syncInProgress rt \<or> syncQueue rt = []")
  case True
  then have "syncWhenOnline rt = rt"
    by (auto simp add: syncWhenOnline_def)
  then show ?thesis
    using assms by simp
next
  case False
  then obtain r rs where q: "syncQueue rt = r # rs"
    by (cases "syncQueue rt") auto
  have t: "tasks rt = []"
    using False assms by (simp add: wellFormed_def)
  have "syncWhenOnline rt =
          rt\<lparr>syncInProgress := True,
             tasks := [\<lparr>drainId = drainCount rt, current = r, pending = rs, successfulSyncs = []\<rparr>],
             drainCount := Suc (drainCount rt)\<rparr>"
    using False q t by (simp add: syncWhenOnline_def)
  then show ?thesis
    using assms q t
    by (auto simp add: wellFormed_def heapOk_def list_all_iff less_Suc_eq)
qed

lemma wellFormed_alloc:
  assumes "wellFormed rt"
  shows "wellFormed (alloc a rt)"
  using assms
  by (auto simp add: wellFormed_def heapOk_def alloc_def list_all_iff less_Suc_eq)

lemma wellFormed_fold_alloc:
  assumes "wellFormed rt"
  shows "wellFormed (fold alloc as rt)"
  using assms by (induction as arbitrary: rt) (simp_all add: wellFormed_alloc)

lemma wellFormed_emptied:
  assumes "wellFormed rt"
  shows "wellFormed (rt\<lparr>syncQueue := []\<rparr>)" and "wellFormed (rt\<lparr>offlineData := od, syncQueue := []\<rparr>)"
    and "wellFormed (rt\<lparr>offlineData := od\<rparr>)"
  using assms by (simp_all add: wellFormed_def heapOk_def)

lemma wellFormed_resume:
  assumes "wellFormed rt"
  shows "wellFormed (resume remote now i rt)"
proof (cases "i < length (tasks rt)")
  case False
  then show ?thesis
    using assms by (simp add: resume_def)
next
  case True
  then obtain t where t: "tasks rt = [t]" and i: "i = 0"
    using assms by (cases "tasks rt") (auto simp add: wellFormed_def)
  show ?thesis
  proof (cases "pending t")
    case Nil
    show ?thesis
      unfolding i resume_last[OF t Nil]
      using assms t Nil
      by (auto simp add: completeSync_def wellFormed_def heapOk_def list_all_iff)
  next
    case (Cons r rs)
    show ?thesis
      unfolding i resume_more[OF t Cons]
      using assms t Cons
      by (auto simp add: wellFormed_def heapOk_def list_all_iff)
  qed
qed

lemma wellFormed_deliver:
  assumes "wellFormed rt"
  shows "wellFormed (deliver e rt)"
proof (cases e)
  case Online
  have "wellFormed (rt\<lparr>isOnline := True, notified := notified rt @ replicate (syncCallbacks rt) True\<rparr>)"
    using assms by (simp add: wellFormed_def heapOk_def)
  then show ?thesis
    by (simp add: Online onOnline_unfold wellFormed_syncWhenOnline)
next
  case Offline
  then show ?thesis
    using assms by (simp add: onOffline_def notifyCallbacks_def wellFormed_def heapOk_def)
next
  case (VisibilityChange hidden)
  then show ?thesis
    using assms by (simp add: onVisibilityChange_def wellFormed_syncWhenOnline)
next
  case PeriodicSync
  then show ?thesis
    using assms by (simp add: onPeriodicSync_def wellFormed_syncWhenOnline)
next
  case Subscribe
  then show ?thesis
    using assms by (simp add: onConnectionChange_def wellFormed_def heapOk_def)
next
  case (QueueAction ty d now rnd)
  then show ?thesis
    using assms
    by (simp add: queueAction_def Let_def wellFormed_syncWhenOnline wellFormed_alloc)
next
  case (StoreOfflineData k d now)
  then show ?thesis
    using assms by (simp add: storeOfflineData_def wellFormed_emptied)
next
  case (ClearOfflineData now)
  then show ?thesis
    using assms by (simp add: clearOfflineData_def wellFormed_emptied)
next
  case SyncWhenOnline
  then show ?thesis
    using assms by (simp add: wellFormed_syncWhenOnline)
next
  case (Settles i remote now)
  then show ?thesis
    using assms by (simp add: wellFormed_resume)
qed

lemma wellFormed_run:
  assumes "wellFormed rt"
  shows "wellFormed (run es rt)"
  using assms by (induction es arbitrary: rt) (simp_all add: run_def wellFormed_deliver)

lemma wellFormed_resetOfflineData:
  assumes "wellFormed rt"
  shows "wellFormed (resetOfflineData now rt)"
  using assms by (simp add: resetOfflineData_def wellFormed_emptied)

lemma wellFormed_loadCache:
  assumes "wellFormed rt" and "loadCache now b rt = Some rt'"
  shows "wellFormed rt'"
  using assms
  by (cases b rule: present.cases)
     (auto simp add: loadCache_cases wellFormed_emptied wellFormed_resetOfflineData split: if_splits)

lemma wellFormed_loadQueue:
  assumes "wellFormed rt" and "loadQueue b rt = Some rt'"
  shows "wellFormed rt'"
  using assms
  by (cases b rule: present.cases)
     (auto simp add: loadQueue_cases wellFormed_emptied wellFormed_fold_alloc)

lemma wellFormed_loadOfflineData:
  assumes "wellFormed rt"
  shows "wellFormed (loadOfflineData now rt)"
  using assms
  by (auto simp add: loadOfflineData_def Let_def wellFormed_resetOfflineData
      split: option.splits dest: wellFormed_loadCache wellFormed_loadQueue)

lemma wellFormed_construct: "wellFormed (construct online now st)"
  unfolding construct_def
  by (rule wellFormed_loadOfflineData) (simp add: wellFormed_def heapOk_def)

text \<open>
  C2. In every state the manager can reach from its construction, whatever events, calls
  and settled dispatches the event loop delivers in whatever order: at most one drain is
  in flight, and no drain has dispatched an object twice. While a drain is in progress,
  a call of \<^verbatim>\<open>syncWhenOnline\<close> changes nothing, and \<^verbatim>\<open>queueAction\<close> appends the new
  object to the queue and leaves the drain in flight as it is: the new object is not
  among those the drain still has to dispatch.
\<close>

theorem single_flight:
  assumes "rt = run es (construct online now st)"
  shows "length (tasks rt) \<le> 1
       \<and> distinct (dispatchLog rt)
       \<and> (syncInProgress rt \<longrightarrow>
             syncWhenOnline rt = rt
           \<and> tasks (deliver (QueueAction ty d t rnd) rt) = tasks rt
           \<and> syncQueue (deliver (QueueAction ty d t rnd) rt) = syncQueue rt @ [nextRef rt]
           \<and> (\<forall>task \<in> set (tasks rt). nextRef rt \<notin> set (current task # pending task)))"
proof -
  have wf: "wellFormed rt"
    unfolding assms by (rule wellFormed_run) (rule wellFormed_construct)
  have busy: "syncWhenOnline x = x" if "syncInProgress x" for x
    using that by (simp add: syncWhenOnline_def)
  have "tasks (deliver (QueueAction ty d t rnd) rt) = tasks rt
      \<and> syncQueue (deliver (QueueAction ty d t rnd) rt) = syncQueue rt @ [nextRef rt]"
    if "syncInProgress rt"
    using that by (simp add: queueAction_def Let_def busy alloc_def)
  moreover have "\<forall>task \<in> set (tasks rt). nextRef rt \<notin> set (current task # pending task)"
    using wf by (fastforce simp add: wellFormed_def)
  ultimately show ?thesis
    using wf busy by (simp add: wellFormed_def)
qed

lemma draining_fields:
  "syncInProgress draining"
  "syncQueue draining = [0, 1]"
  "tasks draining = [\<lparr>drainId = 0, current = 0, pending = [], successfulSyncs = []\<rparr>]"
  "nextRef draining = 2"
  by (simp_all add: draining_def run_def queueAction_def Let_def alloc_def syncWhenOnline_def
      emptyStorage_fields)

theorem single_flight_witness:
  "length (tasks draining) = 1 \<and> syncWhenOnline draining = draining
   \<and> syncQueue (deliver (QueueAction ''sos'' sosPayload 7 ''c'') draining) = [0, 1, 2]
   \<and> tasks (deliver (QueueAction ''sos'' sosPayload 7 ''c'') draining)
       = [\<lparr>drainId = 0, current = 0, pending = [], successfulSyncs = []\<rparr>]"
  using single_flight[of draining
      "[QueueAction ''sos'' sosPayload 5 ''a'', QueueAction ''sos'' sosPayload 6 ''b'']"
      True 0 emptyStorage "''sos''" sosPayload 7 "''c''"]
  by (simp add: draining_fields del: deliver.simps) (simp add: draining_def)

subsection \<open>Enqueue, then restart\<close>

theorem queueAction_survives_restart_witness:
  "queued (construct True 77
     (localStorage (snd (queueAction ''sos'' sosPayload 5 ''abc'' (construct False 0 emptyStorage)))))
   = [\<lparr>id' = ''sos_5_abc'', type' = ''sos'', data = sosPayload, timestamp = 5, retryCount = 0\<rparr>]"
proof -
  have h: "heapOk (construct False 0 emptyStorage)"
    "\<And>k v. \<not> refuses (localStorage (construct False 0 emptyStorage)) k v"
    by (simp_all add: emptyStorage_fields heapOk_def) (simp add: emptyStorage_def)
  have d: "decimal 5 = ''5''"
    by (simp add: decimal_def digits.simps digit_def)
  show ?thesis
    using queueAction_survives_restart[OF h, of "''sos''" sosPayload 5 "''abc''" True 77]
    by (simp add: queued_def emptyStorage_fields newAction_def d)
qed

end
